theory Spec2Isabelle
  imports Main
begin

section \<open>Characters and string helpers\<close>

text \<open>
  Python strings are modelled as \<open>string\<close> (lists of \<open>char\<close>); a \<open>char\<close> stands for one
  decoded code point below 256.
\<close>

abbreviation NL :: char where "NL \<equiv> CHR 0x0A"
abbreviation BACKSLASH :: char where "BACKSLASH \<equiv> CHR 0x5C"
abbreviation PERCENT :: char where "PERCENT \<equiv> CHR 0x25"
abbreviation SLASH :: char where "SLASH \<equiv> CHR 0x2F"

text \<open>\<^verbatim>\<open>str.startswith\<close> and \<^verbatim>\<open>str.endswith\<close>.\<close>

definition startswith :: "string \<Rightarrow> string \<Rightarrow> bool" where
  "startswith s p = (take (length p) s = p)"

definition endswith :: "string \<Rightarrow> string \<Rightarrow> bool" where
  "endswith s p = (length p \<le> length s \<and> drop (length s - length p) s = p)"

section \<open>The comment-stripping transform\<close>

text \<open>
  \<^verbatim>\<open>strip_comment = partial(re.compile(r'(^|[^\\])%.*').sub, r'\1%')\<close>

  \<^verbatim>\<open>sub\<close> scans the string from left to right. At each position it tries the pattern:
  first the alternative \<^verbatim>\<open>^\<close> (only at the very start of the string) followed by a
  percent sign, then the alternative \<^verbatim>\<open>[^\\]\<close> (one character that is not a backslash;
  a newline qualifies) followed by a percent sign. \<^verbatim>\<open>.*\<close> then takes every character up
  to, not including, the next newline. The match is replaced by group 1 followed by a
  percent sign, and the scan goes on where the match ended. Where nothing matches, the
  character is copied and the scan moves one position on.
  The flag of \<open>comment_sub\<close> says whether the scan is at the start of the string.
\<close>

function comment_sub :: "bool \<Rightarrow> string \<Rightarrow> string" where
  "comment_sub at_start [] = []"
| "comment_sub at_start (c # s) =
     (if at_start \<and> c = PERCENT
        then PERCENT # comment_sub False (dropWhile (\<lambda>x. x \<noteq> NL) s)
      else if c \<noteq> BACKSLASH \<and> (case s of [] \<Rightarrow> False | d # _ \<Rightarrow> d = PERCENT)
        then c # PERCENT # comment_sub False (dropWhile (\<lambda>x. x \<noteq> NL) (tl s))
      else c # comment_sub False s)"
  by pat_completeness auto
termination
proof (relation "measure (\<lambda>(b, s). length s)")
  show "wf (measure (\<lambda>(b :: bool, s :: string). length s))" by simp
next
  fix at_start :: bool and c :: char and s :: string
  show "((False, dropWhile (\<lambda>x. x \<noteq> NL) s), (at_start, c # s)) \<in> measure (\<lambda>(b, s). length s)"
    by (simp add: le_imp_less_Suc length_dropWhile_le)
next
  fix at_start :: bool and c :: char and s :: string
  have "length (dropWhile (\<lambda>x. x \<noteq> NL) (tl s)) \<le> length (tl s)"
    by (rule length_dropWhile_le)
  then show "((False, dropWhile (\<lambda>x. x \<noteq> NL) (tl s)), (at_start, c # s)) \<in> measure (\<lambda>(b, s). length s)"
    by simp
next
  fix at_start :: bool and c :: char and s :: string
  show "((False, s), (at_start, c # s)) \<in> measure (\<lambda>(b, s). length s)" by simp
qed

definition strip_comment :: "string \<Rightarrow> string" where
  "strip_comment line = comment_sub True line"

text \<open>
  The specification's notion of an unescaped percent sign, for comparison with the
  transform: position \<open>i\<close> of \<open>s\<close> holds a percent sign that stands at the start of \<open>s\<close>
  or directly after a character other than a backslash.
\<close>

definition unescaped_percent :: "string \<Rightarrow> nat \<Rightarrow> bool" where
  "unescaped_percent s i =
     (i < length s \<and> s ! i = PERCENT \<and> (i = 0 \<or> s ! (i - 1) \<noteq> BACKSLASH))"


section \<open>Reading lines\<close>

text \<open>
  \<^verbatim>\<open>readline\<close> on a stream whose unread part is \<open>s\<close>: the line up to and including the
  next newline, or the whole rest when no newline is left; \<open>[]\<close> only at the end of the
  stream. The second component is what stays unread. Iterating over an open text file
  (\<^verbatim>\<open>for line in f\<close>) yields the lines that repeated \<^verbatim>\<open>readline\<close> gives.
\<close>

definition readline :: "string \<Rightarrow> string \<times> string" where
  "readline s =
     (case dropWhile (\<lambda>x. x \<noteq> NL) s of
        [] \<Rightarrow> (s, [])
      | n # r \<Rightarrow> (takeWhile (\<lambda>x. x \<noteq> NL) s @ [n], r))"

function file_lines :: "string \<Rightarrow> string list" where
  "file_lines s = (if s = [] then [] else fst (readline s) # file_lines (snd (readline s)))"
  by pat_completeness auto
termination
proof (relation "measure length")
  show "wf (measure (length :: string \<Rightarrow> nat))" by simp
next
  fix s :: string
  assume ne: "s \<noteq> []"
  have "length (snd (readline s)) < length s"
  proof (cases "dropWhile (\<lambda>x. x \<noteq> NL) s")
    case Nil
    show ?thesis unfolding readline_def Nil using ne by simp
  next
    case (Cons n r)
    have "length (dropWhile (\<lambda>x. x \<noteq> NL) s) \<le> length s" by (rule length_dropWhile_le)
    then show ?thesis unfolding readline_def Cons by simp
  qed
  then show "(snd (readline s), s) \<in> measure length" by simp
qed

declare file_lines.simps [simp del]

section \<open>Whitespace stripping, paths\<close>

text \<open>\<^verbatim>\<open>str.isspace\<close> on the code points below 256, and \<^verbatim>\<open>str.strip()\<close>.\<close>

definition isspace :: "char \<Rightarrow> bool" where
  "isspace c = (c \<in> set [CHR 0x09, CHR 0x0A, CHR 0x0B, CHR 0x0C, CHR 0x0D,
                           CHR 0x1C, CHR 0x1D, CHR 0x1E, CHR 0x1F, CHR 0x20,
                           CHR 0x85, CHR 0xA0])"

definition strip :: "string \<Rightarrow> string" where
  "strip s = rev (dropWhile isspace (rev (dropWhile isspace s)))"

text \<open>\<^verbatim>\<open>os.path.basename\<close>: what follows the last slash.\<close>

definition basename :: "string \<Rightarrow> string" where
  "basename p = rev (takeWhile (\<lambda>x. x \<noteq> SLASH) (rev p))"

text \<open>Substring test, as \<^verbatim>\<open>search\<close> does for a pattern without metacharacters.\<close>

fun contains :: "string \<Rightarrow> string \<Rightarrow> bool" where
  "contains [] sub = (sub = [])"
| "contains (c # s) sub = (startswith (c # s) sub \<or> contains s sub)"

section \<open>The package filter\<close>

text \<open>
  \<^verbatim>\<open>pkg_re = re.compile('/' + '|'.join(re.escape(p) for p in packages) + '/')\<close>

  \<^verbatim>\<open>re.escape\<close> makes every package name a literal. The joined names form an
  alternation with one branch per name (one empty branch when there is no name), and the
  pattern string is \<^verbatim>\<open>/p1|p2|...|pn/\<close>, without a group around the alternation. In
  Python's \<^verbatim>\<open>re\<close> alternation binds weakest, so the leading slash belongs to the first
  branch only and the trailing slash to the last branch only. \<open>pkg_re\<close> is the list of
  branches; \<^verbatim>\<open>pkg_re.search(dep)\<close> succeeds when some branch occurs in \<open>dep\<close>.
\<close>

definition pkg_re :: "string list \<Rightarrow> string list" where
  "pkg_re packages =
     (let names = (if packages = [] then [[]] else packages);
          branches = (SLASH # hd names) # tl names
      in butlast branches @ [last branches @ [SLASH]])"

definition pkg_re_search :: "string list \<Rightarrow> string \<Rightarrow> bool" where
  "pkg_re_search packages dep = list_ex (contains dep) (pkg_re packages)"

section \<open>File system, archive, errors\<close>

text \<open>
  What the program asks of the file system: \<open>links p\<close> is the link target of \<open>p\<close> when
  \<open>p\<close> is a symbolic link (\<^verbatim>\<open>os.path.islink\<close>, \<^verbatim>\<open>os.readlink\<close>), \<open>path_exists\<close> is
  \<^verbatim>\<open>os.path.exists\<close>, and \<open>file_text p\<close> is the text of \<open>p\<close> as a file opened with
  \<^verbatim>\<open>io.open(p)\<close> delivers it (decoded, line ends translated to newlines), \<open>None\<close> when
  the file cannot be opened. Paths are taken from the working directory.
\<close>

record filesystem =
  links :: "string \<rightharpoonup> string"
  path_exists :: "string \<Rightarrow> bool"
  file_text :: "string \<rightharpoonup> string"

text \<open>
  \<^verbatim>\<open>os.lstat(p)\<close> succeeds: \<open>p\<close> is a symbolic link (dangling or not), or \<open>p\<close> is no
  link and exists.
\<close>

definition lexists :: "filesystem \<Rightarrow> string \<Rightarrow> bool" where
  "lexists fs p = (links fs p \<noteq> None \<or> path_exists fs p)"

text \<open>
  The external build tool: what \<^verbatim>\<open>latexmk -silent -pdf -deps\<close> writes to its standard
  output, its exit status, and the exit status of \<^verbatim>\<open>latexmk -C\<close>.
\<close>

record latexmk =
  build_stdout :: string
  build_returncode :: int
  clean_returncode :: int

text \<open>
  The archive \<^verbatim>\<open>out_tar\<close> is the sequence of members added to it:
  \<open>Add name arcname\<close> for \<^verbatim>\<open>out_tar.add(name, arcname=arcname)\<close> and
  \<open>AddFile name text\<close> for \<^verbatim>\<open>out_tar.addfile\<close> with a \<^verbatim>\<open>TarInfo\<close> of that name and
  the given text as content.

  The exceptions of a run: \<^verbatim>\<open>ValueError("Unexpected EOF")\<close>, a failed \<^verbatim>\<open>assert\<close>, a
  file that \<^verbatim>\<open>io.open\<close> cannot open, a name that \<^verbatim>\<open>out_tar.add\<close> does not find,
  \<^verbatim>\<open>subprocess.check_call\<close> on a non-zero exit status, and \<^verbatim>\<open>sys.exit\<close>.
\<close>

datatype member = Add string string | AddFile string string

datatype exn =
    UnexpectedEOF
  | AssertionError
  | IOError
  | OSError
  | CalledProcessError int
  | SystemExit int

datatype outcome = Returned | Raised exn

text \<open>
  \<^verbatim>\<open>out_tar.add(name, arcname=arcname)\<close> starts with \<^verbatim>\<open>os.lstat(name)\<close> and raises when
  there is no such file; otherwise the member is added.
\<close>

definition tar_add :: "filesystem \<Rightarrow> string \<Rightarrow> string \<Rightarrow> member list \<Rightarrow> exn + member list" where
  "tar_add fs name arcname tar =
     (if lexists fs name then Inr (tar @ [Add name arcname]) else Inl OSError)"

section \<open>Symbolic links\<close>

text \<open>
  \<^verbatim>\<open>
  def target(fname):
      while os.path.islink(fname):
          fname = os.readlink(fname)
      return fname
  \<close>
  The loop has no guard against a cycle of links; \<open>None\<close> stands for not returning.
\<close>

partial_function (option) target :: "(string \<rightharpoonup> string) \<Rightarrow> string \<Rightarrow> string option" where
  "target lnk fname = (case lnk fname of None \<Rightarrow> Some fname | Some t \<Rightarrow> target lnk t)"

declare target.simps [code]

text \<open>
  \<^verbatim>\<open>target\<close> uses the text of a link as a path from the working directory. That is the
  file the link points to when the text is an absolute path. \<open>abs_chain lnk n p\<close> is the
  path reached from \<open>p\<close> by following links whose texts are absolute paths, when that
  takes at most \<open>n\<close> steps.
\<close>

fun abs_chain :: "(string \<rightharpoonup> string) \<Rightarrow> nat \<Rightarrow> string \<Rightarrow> string option" where
  "abs_chain lnk 0 p = (case lnk p of None \<Rightarrow> Some p | Some t \<Rightarrow> None)"
| "abs_chain lnk (Suc n) p =
     (case lnk p of
        None \<Rightarrow> Some p
      | Some t \<Rightarrow> if startswith t [SLASH] then abs_chain lnk n t else None)"

section \<open>The dependency trace\<close>

text \<open>
  \<^verbatim>\<open>
  def read_until(check):
      while True:
          line = next_line()
          if line == '':
              raise ValueError("Unexpected EOF")
          elif check(line):
              return
          yield line
  \<close>
  The generator is modelled together with its consumer: \<open>body\<close> is what the consumer
  does with each yielded line (for \<^verbatim>\<open>consume\<close>, nothing), \<open>acc\<close> the state the consumer
  updates and \<open>out\<close> the unread output of the process. The result is \<open>None\<close> when the
  consumer does not return.
\<close>

function read_until ::
  "(string \<Rightarrow> bool) \<Rightarrow> (string \<Rightarrow> 'a \<Rightarrow> (exn + 'a) option) \<Rightarrow> 'a \<Rightarrow> string
     \<Rightarrow> (outcome \<times> 'a \<times> string) option" where
  "read_until check body acc out =
     (if fst (readline out) = [] then Some (Raised UnexpectedEOF, acc, snd (readline out))
      else if check (fst (readline out)) then Some (Returned, acc, snd (readline out))
      else (case body (fst (readline out)) acc of
              None \<Rightarrow> None
            | Some (Inl e) \<Rightarrow> Some (Raised e, acc, snd (readline out))
            | Some (Inr acc') \<Rightarrow> read_until check body acc' (snd (readline out))))"
  by pat_completeness auto
termination
proof (relation "measure (\<lambda>(check, body, acc, out). length out)")
  show "wf (measure (\<lambda>(check :: string \<Rightarrow> bool, body :: string \<Rightarrow> 'a \<Rightarrow> (exn + 'a) option,
                        acc :: 'a, out :: string). length out))"
    by simp
next
  fix check :: "string \<Rightarrow> bool" and body :: "string \<Rightarrow> 'a \<Rightarrow> (exn + 'a) option"
    and acc acc' :: 'a and out :: string
  assume "fst (readline out) \<noteq> []"
  then have ne: "out \<noteq> []" by (auto simp: readline_def)
  have "length (snd (readline out)) < length out"
  proof (cases "dropWhile (\<lambda>x. x \<noteq> NL) out")
    case Nil
    show ?thesis unfolding readline_def Nil using ne by simp
  next
    case (Cons n r)
    have "length (dropWhile (\<lambda>x. x \<noteq> NL) out) \<le> length out" by (rule length_dropWhile_le)
    then show ?thesis unfolding readline_def Cons by simp
  qed
  then show "((check, body, acc', snd (readline out)), (check, body, acc, out))
               \<in> measure (\<lambda>(check, body, acc, out). length out)"
    by simp
qed

declare read_until.simps [simp del]

text \<open>\<^verbatim>\<open>consume\<close> runs an iterator to its end and drops what it yields.\<close>

definition consume_body :: "string \<Rightarrow> unit \<Rightarrow> (exn + unit) option" where
  "consume_body line u = Some (Inr u)"

section \<open>Classifying one dependency\<close>

text \<open>
  The body of the loop over the dependency lines (lines 62 to 89 of the source), on the
  archive \<open>out_tar\<close>: the new archive, an exception, or \<open>None\<close> when \<^verbatim>\<open>target\<close> does not
  return. \<^verbatim>\<open>target\<close> is called before \<^verbatim>\<open>out_tar.add\<close>, whose argument it is.
\<close>

definition dep_of_line :: "string \<Rightarrow> string" where
  "dep_of_line line =
     (let dep = strip line in if endswith dep [BACKSLASH] then butlast dep else dep)"

definition collect_dep ::
  "filesystem \<Rightarrow> string list \<Rightarrow> bool \<Rightarrow> string \<Rightarrow> member list \<Rightarrow> (exn + member list) option" where
  "collect_dep fs packages strip_comments line out_tar =
     (let dep = dep_of_line line in
      if startswith dep [SLASH] then
        (if pkg_re_search packages dep
         then (case target (links fs) dep of
                 None \<Rightarrow> None
               | Some t \<Rightarrow> Some (tar_add fs t (basename dep) out_tar))
         else Some (Inr out_tar))
      else if endswith dep ''.tex'' \<and> strip_comments then
        (case file_text fs dep of
           None \<Rightarrow> Some (Inl IOError)
         | Some txt \<Rightarrow>
             Some (Inr (out_tar @ [AddFile dep (concat (map strip_comment (file_lines txt)))])))
      else if endswith dep ''.eps'' then
        (let base = take (length dep - 4) dep;
             pdf = base @ ''-eps-converted-to.pdf''
         in if \<not> path_exists fs pdf then Some (Inl AssertionError)
            else (case target (links fs) pdf of
                    None \<Rightarrow> None
                  | Some t \<Rightarrow> Some (tar_add fs t (base @ ''.pdf'') out_tar)))
      else if endswith dep ''-eps-converted-to.pdf'' then Some (Inr out_tar)
      else if endswith dep ''.bib'' then Some (Inr out_tar)
      else (case target (links fs) dep of
              None \<Rightarrow> None
            | Some t \<Rightarrow> Some (tar_add fs t dep out_tar)))"

section \<open>Collecting the archive\<close>

text \<open>
  The state of a run: the unread output of the build process, the archive, and the
  commands started so far.
\<close>

record state =
  stdout :: string
  out_tar :: "member list"
  calls :: "string list list"

definition start_pat :: "string \<Rightarrow> string" where
  "start_pat base_name = ''#===Dependents(, and related info,)? for '' @ base_name @ '':'' @ [NL]"

definition end_line :: "string \<Rightarrow> string" where
  "end_line base_name = ''#===End dependents for '' @ base_name @ '':'' @ [NL]"

definition header :: "string \<Rightarrow> string" where
  "header base_name = base_name @ ''.pdf :'' @ [BACKSLASH]"

text \<open>
  \<open>collect\<close> (lines 30 to 100). The base name is put into the start pattern as it is, so
  what the pattern matches is up to the regular-expression engine: \<open>re_match pat line\<close>
  stands for \<^verbatim>\<open>re.compile(pat).match(line)\<close> being a match. \<open>tar\<close> is the archive the
  caller passes in, \<open>mk\<close> what the two \<^verbatim>\<open>latexmk\<close> processes do once started. After the
  end marker the rest of the output is read and dropped, then the exit status is looked
  at.
\<close>

definition collect ::
  "(string \<Rightarrow> string \<Rightarrow> bool) \<Rightarrow> filesystem \<Rightarrow> latexmk \<Rightarrow> member list \<Rightarrow> string \<Rightarrow> string list \<Rightarrow> bool
     \<Rightarrow> (outcome \<times> state) option" where
  "collect re_match fs mk tar base_name packages strip_comments =
     (let build = [''latexmk'', ''-silent'', ''-pdf'', ''-deps'', base_name];
          clean = [''latexmk'', ''-C'', base_name];
          bbl = base_name @ ''.bbl''
      in
      case read_until (re_match (start_pat base_name)) consume_body () (build_stdout mk) of
        None \<Rightarrow> None
      | Some (Raised e, u, out1) \<Rightarrow> Some (Raised e, \<lparr>stdout = out1, out_tar = tar, calls = [build]\<rparr>)
      | Some (Returned, u, out1) \<Rightarrow>
          if strip (fst (readline out1)) \<noteq> header base_name
          then Some (Raised AssertionError,
                     \<lparr>stdout = snd (readline out1), out_tar = tar, calls = [build]\<rparr>)
          else
            (case read_until (\<lambda>line. end_line base_name = line)
                    (collect_dep fs packages strip_comments) tar (snd (readline out1)) of
               None \<Rightarrow> None
             | Some (Raised e, tar1, out2) \<Rightarrow>
                 Some (Raised e, \<lparr>stdout = out2, out_tar = tar1, calls = [build]\<rparr>)
             | Some (Returned, tar1, out2) \<Rightarrow>
                 if build_returncode mk \<noteq> 0
                 then (if clean_returncode mk \<noteq> 0
                       then Some (Raised (CalledProcessError (clean_returncode mk)),
                                  \<lparr>stdout = [], out_tar = tar1, calls = [build, clean]\<rparr>)
                       else Some (Raised (SystemExit (build_returncode mk)),
                                  \<lparr>stdout = [], out_tar = tar1, calls = [build, clean]\<rparr>))
                 else (case tar_add fs bbl bbl tar1 of
                         Inl e \<Rightarrow>
                           Some (Raised e, \<lparr>stdout = [], out_tar = tar1, calls = [build]\<rparr>)
                       | Inr tar2 \<Rightarrow>
                           Some (Returned, \<lparr>stdout = [], out_tar = tar2, calls = [build]\<rparr>))))"

section \<open>Well-formed dependency traces\<close>

text \<open>
  The output the parser is written for, used to state what \<open>collect\<close> does with it. A
  complete line ends in a newline and holds no other newline. A trace consists of lines
  \<open>pre\<close> that the start pattern does not match, a start line that it matches, the header
  line, the dependency lines \<open>deps\<close> (none of them the end line), the end line, and
  whatever follows.
\<close>

definition complete_line :: "string \<Rightarrow> bool" where
  "complete_line l = (l \<noteq> [] \<and> last l = NL \<and> NL \<notin> set (butlast l))"

definition well_formed_trace ::
  "(string \<Rightarrow> string \<Rightarrow> bool) \<Rightarrow> string \<Rightarrow> string list \<Rightarrow> string \<Rightarrow> string \<Rightarrow> string list \<Rightarrow> bool" where
  "well_formed_trace re_match base_name pre start hdr deps =
     (list_all (\<lambda>l. complete_line l \<and> \<not> re_match (start_pat base_name) l) pre
      \<and> complete_line start \<and> re_match (start_pat base_name) start
      \<and> complete_line hdr \<and> strip hdr = header base_name
      \<and> list_all (\<lambda>l. complete_line l \<and> l \<noteq> end_line base_name) deps
      \<and> complete_line (end_line base_name))"

text \<open>
  The part of a trace up to and including the header line, for outputs that end before
  the end line.
\<close>

definition well_formed_head ::
  "(string \<Rightarrow> string \<Rightarrow> bool) \<Rightarrow> string \<Rightarrow> string list \<Rightarrow> string \<Rightarrow> string \<Rightarrow> bool" where
  "well_formed_head re_match base_name pre start hdr =
     (list_all (\<lambda>l. complete_line l \<and> \<not> re_match (start_pat base_name) l) pre
      \<and> complete_line start \<and> re_match (start_pat base_name) start
      \<and> complete_line hdr \<and> strip hdr = header base_name)"

definition trace :: "string \<Rightarrow> string list \<Rightarrow> string \<Rightarrow> string \<Rightarrow> string list \<Rightarrow> string \<Rightarrow> string" where
  "trace base_name pre start hdr deps rest =
     concat pre @ start @ hdr @ concat deps @ end_line base_name @ rest"

section \<open>A sample run\<close>

text \<open>
  A small project with base name \<^verbatim>\<open>m\<close>: the build tool's output with a dependency
  block of four lines, a file system without links that holds the style file, \<^verbatim>\<open>m.tex\<close>,
  the converted companion of \<^verbatim>\<open>f/p.eps\<close> and \<^verbatim>\<open>m.bbl\<close>, and what \<^verbatim>\<open>re.match\<close> does
  with the start pattern for \<^verbatim>\<open>m\<close>.
\<close>

definition sample_match :: "string \<Rightarrow> string \<Rightarrow> bool" where
  "sample_match pat line =
     (pat = start_pat ''m''
      \<and> line \<in> set [''#===Dependents for m:'' @ [NL],
                      ''#===Dependents, and related info, for m:'' @ [NL]])"

definition sample_fs :: filesystem where
  "sample_fs =
     \<lparr>links = Map.empty,
      path_exists = (\<lambda>p. p \<in> set [''/t/biblatex/b.sty'', ''m.tex'',
                                     ''f/p-eps-converted-to.pdf'', ''m.bbl'']),
      file_text = [''m.tex'' \<mapsto> ''a%b'' @ [NL] @ ''c'']\<rparr>"

definition sample_start :: string where
  "sample_start = ''#===Dependents, and related info, for m:'' @ [NL]"

definition sample_hdr :: string where
  "sample_hdr = ''m.pdf :'' @ [BACKSLASH, NL]"

definition sample_deps :: "string list" where
  "sample_deps =
     [''    /t/biblatex/b.sty'' @ [BACKSLASH, NL],
      ''    m.tex'' @ [BACKSLASH, NL],
      ''    f/p.eps'' @ [BACKSLASH, NL],
      ''    r.bib'' @ [NL]]"

definition sample_stdout :: string where
  "sample_stdout = trace ''m'' [''Latexmk: done'' @ [NL]] sample_start sample_hdr sample_deps ''x''"

section \<open>Properties of the comment-stripping transform\<close>

lemma comment_sub_Cons: "\<exists>t. comment_sub b (c # s) = c # t"
  by simp

lemma comment_sub_eq_Nil [simp]: "comment_sub b s = [] \<longleftrightarrow> s = []"
  by (cases s) simp_all

lemma comment_sub_hd: "s \<noteq> [] \<Longrightarrow> hd (comment_sub b s) = hd s"
  by (cases s) simp_all

lemma comment_sub_next:
  "(case comment_sub False s of [] \<Rightarrow> False | d # _ \<Rightarrow> d = PERCENT) =
   (case s of [] \<Rightarrow> False | d # _ \<Rightarrow> d = PERCENT)"
  by (cases s) simp_all

lemma dropWhile_comment_sub:
  "dropWhile (\<lambda>x. x \<noteq> NL) (comment_sub False (dropWhile (\<lambda>x. x \<noteq> NL) s)) =
   comment_sub False (dropWhile (\<lambda>x. x \<noteq> NL) s)"
proof (cases "dropWhile (\<lambda>x. x \<noteq> NL) s")
  case Nil
  show ?thesis unfolding Nil by simp
next
  case (Cons n r)
  have "n = NL" using hd_dropWhile [of "\<lambda>x. x \<noteq> NL" s] Cons by simp
  then show ?thesis unfolding Cons by simp
qed

lemma comment_sub_idem: "comment_sub b (comment_sub b s) = comment_sub b s"
proof (induction b s rule: comment_sub.induct)
  case (1 at_start)
  show ?case by simp
next
  case (2 at_start c s)
  show ?case
  proof (cases "at_start \<and> c = PERCENT")
    case True
    with 2(1) show ?thesis by (simp add: dropWhile_comment_sub)
  next
    case False
    note nf = False
    show ?thesis
    proof (cases "c \<noteq> BACKSLASH \<and> (case s of [] \<Rightarrow> False | d # _ \<Rightarrow> d = PERCENT)")
      case True
      then obtain s' where s: "s = PERCENT # s'" by (cases s) auto
      from True nf 2(2) s show ?thesis by (auto simp add: dropWhile_comment_sub)
    next
      case False
      with nf 2(3) show ?thesis by (auto simp add: comment_sub_next)
    qed
  qed
qed

lemma comment_sub_no_percent: "PERCENT \<notin> set s \<Longrightarrow> comment_sub b s = s"
proof (induction s arbitrary: b)
  case Nil
  show ?case by simp
next
  case (Cons c s)
  then show ?case by (cases s) auto
qed

lemma comment_sub_start: "\<not> startswith s [PERCENT] \<Longrightarrow> comment_sub True s = comment_sub False s"
  by (cases s) (simp_all add: startswith_def)

lemma dropWhile_line: "dropWhile (\<lambda>x. x \<noteq> NL) (s @ NL # y) = dropWhile (\<lambda>x. x \<noteq> NL) s @ NL # y"
  by (induction s) simp_all

lemma comment_sub_append:
  "comment_sub b (x @ NL # y) = comment_sub b x @ NL # comment_sub True y"
proof (induction b x rule: comment_sub.induct)
  case (1 at_start)
  show ?case by (cases y) simp_all
next
  case (2 at_start c s)
  show ?case
  proof (cases "at_start \<and> c = PERCENT")
    case True
    with 2(1) show ?thesis by (simp add: dropWhile_line)
  next
    case False
    note nf = False
    show ?thesis
    proof (cases "c \<noteq> BACKSLASH \<and> (case s of [] \<Rightarrow> False | d # _ \<Rightarrow> d = PERCENT)")
      case True
      then obtain s' where s: "s = PERCENT # s'" by (cases s) auto
      from True nf 2(2) s show ?thesis by (auto simp add: dropWhile_line)
    next
      case False
      with nf 2(3) show ?thesis by (cases s) auto
    qed
  qed
qed



lemma comment_sub_subset: "set (comment_sub b s) \<subseteq> set s"
proof (induction b s rule: comment_sub.induct)
  case (1 at_start)
  show ?case by simp
next
  case (2 at_start c s)
  have d: "set (dropWhile (\<lambda>x. x \<noteq> NL) t) \<subseteq> set t" for t :: string
    by (auto dest: set_dropWhileD)
  show ?case
  proof (cases "at_start \<and> c = PERCENT")
    case True
    with 2(1) d [of s] show ?thesis by auto
  next
    case False
    note nf = False
    show ?thesis
    proof (cases "c \<noteq> BACKSLASH \<and> (case s of [] \<Rightarrow> False | d # _ \<Rightarrow> d = PERCENT)")
      case True
      then obtain s' where s: "s = PERCENT # s'" by (cases s) auto
      from True nf 2(2) s d [of s'] show ?thesis by auto
    next
      case False
      with nf 2(3) show ?thesis by auto
    qed
  qed
qed

lemma dropWhile_no_NL: "NL \<notin> set s \<Longrightarrow> dropWhile (\<lambda>x. x \<noteq> NL) s = []"
  by (induction s) auto

lemma takeWhile_no_NL: "NL \<notin> set s \<Longrightarrow> takeWhile (\<lambda>x. x \<noteq> NL) s = s"
  by (induction s) auto

lemma comment_sub_mid_cut:
  "NL \<notin> set t \<Longrightarrow> 0 < i \<Longrightarrow> unescaped_percent t i
     \<Longrightarrow> (\<forall>j. 0 < j \<and> j < i \<longrightarrow> \<not> unescaped_percent t j)
     \<Longrightarrow> comment_sub False t = take (Suc i) t"
proof (induction t arbitrary: i)
  case Nil
  then show ?case by (simp add: unescaped_percent_def)
next
  case (Cons c s)
  from Cons.prems obtain d s' where s: "s = d # s'"
    by (cases s) (auto simp: unescaped_percent_def)
  show ?case
  proof (cases "i = 1")
    case True
    with Cons.prems s have "d = PERCENT" "c \<noteq> BACKSLASH"
      by (auto simp: unescaped_percent_def)
    moreover have "dropWhile (\<lambda>x. x \<noteq> NL) s' = []"
      using Cons.prems(1) s by (simp add: dropWhile_no_NL)
    ultimately show ?thesis using True s by simp
  next
    case False
    with Cons.prems(2) obtain k where k: "i = Suc k" "0 < k" by (cases i) auto
    have no1: "\<not> unescaped_percent (c # s) 1" using Cons.prems(4) k by auto
    then have nomatch: "\<not> (c \<noteq> BACKSLASH \<and> d = PERCENT)"
      using s by (auto simp: unescaped_percent_def)
    have up: "unescaped_percent s k"
      using Cons.prems(3) k by (auto simp: unescaped_percent_def nth_Cons')
    have none: "\<forall>j. 0 < j \<and> j < k \<longrightarrow> \<not> unescaped_percent s j"
    proof (intro allI impI)
      fix j assume j: "0 < j \<and> j < k"
      then have "\<not> unescaped_percent (c # s) (Suc j)" using Cons.prems(4) k by auto
      with j show "\<not> unescaped_percent s j"
        by (auto simp: unescaped_percent_def nth_Cons')
    qed
    have "comment_sub False s = take (Suc k) s"
      using Cons.IH [OF _ k(2) up none] Cons.prems(1) by simp
    then show ?thesis using nomatch s k by auto
  qed
qed

lemma comment_sub_mid_none:
  "(\<forall>j. 0 < j \<longrightarrow> \<not> unescaped_percent t j) \<Longrightarrow> comment_sub False t = t"
proof (induction t)
  case Nil
  show ?case by simp
next
  case (Cons c s)
  have none: "\<forall>j. 0 < j \<longrightarrow> \<not> unescaped_percent s j"
  proof (intro allI impI)
    fix j :: nat assume j: "0 < j"
    have "\<not> unescaped_percent (c # s) (Suc j)" using Cons.prems by simp
    with j show "\<not> unescaped_percent s j"
      by (auto simp: unescaped_percent_def nth_Cons')
  qed
  have "\<not> unescaped_percent (c # s) 1" using Cons.prems by simp
  then have "\<not> (c \<noteq> BACKSLASH \<and> (case s of [] \<Rightarrow> False | d # _ \<Rightarrow> d = PERCENT))"
    by (cases s) (auto simp: unescaped_percent_def)
  then show ?case using Cons.IH [OF none] by auto
qed

lemma strip_comment_cut:
  assumes "NL \<notin> set body" "unescaped_percent body i" "\<forall>j<i. \<not> unescaped_percent body j"
  shows "strip_comment body = take (Suc i) body"
proof (cases "i = 0")
  case True
  with assms(2) obtain s where s: "body = PERCENT # s"
    by (cases body) (auto simp: unescaped_percent_def)
  with assms(1) True show ?thesis by (simp add: strip_comment_def dropWhile_no_NL)
next
  case False
  then have "\<not> unescaped_percent body 0" using assms(3) by simp
  then have "\<not> startswith body [PERCENT]"
    by (cases body) (auto simp: unescaped_percent_def startswith_def)
  then have "strip_comment body = comment_sub False body"
    by (simp add: strip_comment_def comment_sub_start)
  also have "\<dots> = take (Suc i) body"
    using comment_sub_mid_cut [of body i] assms False by simp
  finally show ?thesis .
qed

lemma strip_comment_none:
  assumes "\<forall>i. \<not> unescaped_percent body i"
  shows "strip_comment body = body"
proof -
  have "\<not> unescaped_percent body 0" using assms by simp
  then have "\<not> startswith body [PERCENT]"
    by (cases body) (auto simp: unescaped_percent_def startswith_def)
  then have "strip_comment body = comment_sub False body"
    by (simp add: strip_comment_def comment_sub_start)
  then show ?thesis using comment_sub_mid_none [of body] assms by simp
qed

lemma readline_no_NL: "NL \<notin> set s \<Longrightarrow> readline s = (s, [])"
  by (simp add: readline_def dropWhile_no_NL)

lemma readline_NL: "NL \<notin> set body \<Longrightarrow> readline (body @ NL # r) = (body @ [NL], r)"
  by (simp add: readline_def dropWhile_line dropWhile_no_NL takeWhile_tail takeWhile_no_NL)

lemma split_first_NL: "NL \<in> set s \<Longrightarrow> \<exists>body r. s = body @ NL # r \<and> NL \<notin> set body"
  by (rule split_list_first)

lemma strip_comment_append: "strip_comment (x @ NL # y) = strip_comment x @ NL # strip_comment y"
  by (simp add: strip_comment_def comment_sub_append)

lemma strip_comment_Nil: "strip_comment [] = []"
  by (simp add: strip_comment_def)

lemma strip_comment_no_NL: "NL \<notin> set s \<Longrightarrow> NL \<notin> set (strip_comment s)"
  using comment_sub_subset [of True s] by (auto simp: strip_comment_def)


lemma concat_strip_lines: "concat (map strip_comment (file_lines doc)) = strip_comment doc"
proof (induction doc rule: file_lines.induct)
  case (1 s)
  show ?case
  proof (cases "s = []")
    case True
    then show ?thesis by (simp add: file_lines.simps strip_comment_Nil)
  next
    case ne: False
    show ?thesis
    proof (cases "NL \<in> set s")
      case False
      with ne show ?thesis
        by (simp add: file_lines.simps [of s] file_lines.simps [of "[]"] readline_no_NL)
    next
      case True
      then obtain body r where s: "s = body @ NL # r" "NL \<notin> set body"
        using split_first_NL by blast
      have rl: "readline s = (body @ [NL], r)" using s by (simp add: readline_NL)
      have "concat (map strip_comment (file_lines r)) = strip_comment r"
        using 1 ne rl by simp
      moreover have "strip_comment (body @ [NL]) = strip_comment body @ [NL]"
        using strip_comment_append [of body "[]"] by (simp add: strip_comment_Nil)
      moreover have "strip_comment s = strip_comment body @ NL # strip_comment r"
        using s(1) by (simp add: strip_comment_append)
      ultimately show ?thesis
        using ne rl by (simp add: file_lines.simps [of s])
    qed
  qed
qed

lemma file_lines_strip: "file_lines (strip_comment doc) = map strip_comment (file_lines doc)"
proof (induction doc rule: file_lines.induct)
  case (1 s)
  show ?case
  proof (cases "s = []")
    case True
    then show ?thesis by (simp add: file_lines.simps strip_comment_Nil)
  next
    case ne: False
    then have ne': "strip_comment s \<noteq> []" by (simp add: strip_comment_def)
    show ?thesis
    proof (cases "NL \<in> set s")
      case False
      then have "NL \<notin> set (strip_comment s)" by (rule strip_comment_no_NL)
      with False ne ne' show ?thesis
        by (simp add: file_lines.simps [of s] file_lines.simps [of "strip_comment s"]
            file_lines.simps [of "[]"] readline_no_NL)
    next
      case True
      then obtain body r where s: "s = body @ NL # r" "NL \<notin> set body"
        using split_first_NL by blast
      have rl: "readline s = (body @ [NL], r)" using s by (simp add: readline_NL)
      have ih: "file_lines (strip_comment r) = map strip_comment (file_lines r)"
        using 1 ne rl by simp
      have eq: "strip_comment s = strip_comment body @ NL # strip_comment r"
        using s(1) by (simp add: strip_comment_append)
      have rl': "readline (strip_comment s) = (strip_comment body @ [NL], strip_comment r)"
        unfolding eq using s(2) by (simp add: readline_NL strip_comment_no_NL)
      have one: "strip_comment (body @ [NL]) = strip_comment body @ [NL]"
        using strip_comment_append [of body "[]"] by (simp add: strip_comment_Nil)
      show ?thesis
        using ne ne' rl rl' ih one
        by (simp add: file_lines.simps [of s] file_lines.simps [of "strip_comment s"])
    qed
  qed
qed

lemma endswith_iff: "endswith s p \<longleftrightarrow> (\<exists>x. s = x @ p)"
proof
  assume e: "endswith s p"
  have "s = take (length s - length p) s @ drop (length s - length p) s" by simp
  with e have "s = take (length s - length p) s @ p" by (simp add: endswith_def)
  then show "\<exists>x. s = x @ p" ..
next
  assume "\<exists>x. s = x @ p"
  then show "endswith s p" by (auto simp: endswith_def)
qed

section \<open>Suffixes, link chains, the package filter\<close>

lemma endswith_same_length:
  "endswith s p \<Longrightarrow> endswith s q \<Longrightarrow> length p = length q \<Longrightarrow> p = q"
  by (simp add: endswith_def)

lemma endswith_suffix: "endswith s (a @ b) \<Longrightarrow> endswith s b"
  by (auto simp: endswith_iff)

lemma bib_not_tex: "endswith s ''.bib'' \<Longrightarrow> \<not> endswith s ''.tex''"
  using endswith_same_length [of s "''.bib''" "''.tex''"] by auto

lemma bib_not_eps: "endswith s ''.bib'' \<Longrightarrow> \<not> endswith s ''.eps''"
  using endswith_same_length [of s "''.bib''" "''.eps''"] by auto

lemma converted_is_pdf: "endswith s ''-eps-converted-to.pdf'' \<Longrightarrow> endswith s ''.pdf''"
  using endswith_suffix [of s "''-eps-converted-to''" "''.pdf''"] by simp

lemma pdf_not_tex: "endswith s ''.pdf'' \<Longrightarrow> \<not> endswith s ''.tex''"
  using endswith_same_length [of s "''.pdf''" "''.tex''"] by auto

lemma pdf_not_eps: "endswith s ''.pdf'' \<Longrightarrow> \<not> endswith s ''.eps''"
  using endswith_same_length [of s "''.pdf''" "''.eps''"] by auto

lemma pdf_not_bib: "endswith s ''.pdf'' \<Longrightarrow> \<not> endswith s ''.bib''"
  using endswith_same_length [of s "''.pdf''" "''.bib''"] by auto

lemma eps_not_tex: "endswith s ''.eps'' \<Longrightarrow> \<not> endswith s ''.tex''"
  using endswith_same_length [of s "''.eps''" "''.tex''"] by auto

lemma target_abs_chain: "abs_chain lnk n p = Some t \<Longrightarrow> target lnk p = Some t"
proof (induction n arbitrary: p)
  case 0
  then show ?case by (subst target.simps) (simp split: option.splits)
next
  case (Suc n)
  then show ?case by (subst target.simps) (simp split: option.splits if_splits)
qed

lemma pkg_re_search_single:
  "pkg_re_search [p] dep \<longleftrightarrow> contains dep (SLASH # p @ [SLASH])"
  by (simp add: pkg_re_search_def pkg_re_def)

section \<open>Reading the dependency trace\<close>

lemma complete_lineD: "complete_line l \<Longrightarrow> \<exists>b. l = b @ [NL] \<and> NL \<notin> set b"
proof -
  assume c: "complete_line l"
  then have "l = butlast l @ [NL]" by (auto simp: complete_line_def dest: append_butlast_last_id)
  with c show ?thesis by (auto simp: complete_line_def)
qed

lemma readline_complete: "complete_line l \<Longrightarrow> readline (l @ s) = (l, s)"
proof -
  assume "complete_line l"
  then obtain b where "l = b @ [NL]" "NL \<notin> set b" using complete_lineD by blast
  then show ?thesis using readline_NL [of b s] by simp
qed

lemma complete_line_ne: "complete_line l \<Longrightarrow> l \<noteq> []"
  by (simp add: complete_line_def)

lemma read_until_hit:
  "complete_line m \<Longrightarrow> check m \<Longrightarrow> read_until check body acc (m @ rest) = Some (Returned, acc, rest)"
  by (simp add: read_until.simps [of check body acc "m @ rest"] readline_complete complete_line_ne)

lemma read_until_step:
  "complete_line l \<Longrightarrow> \<not> check l \<Longrightarrow> body l acc = Some (Inr acc')
     \<Longrightarrow> read_until check body acc (l @ rest) = read_until check body acc' rest"
  by (simp add: read_until.simps [of check body acc "l @ rest"] readline_complete complete_line_ne)

lemma read_until_consume:
  "list_all (\<lambda>l. complete_line l \<and> \<not> check l) pre \<Longrightarrow> complete_line m \<Longrightarrow> check m
     \<Longrightarrow> read_until check consume_body () (concat pre @ m @ rest) = Some (Returned, (), rest)"
proof (induction pre)
  case Nil
  then show ?case by (simp add: read_until_hit)
next
  case (Cons l pre)
  then have "read_until check consume_body () (l @ concat pre @ m @ rest)
               = read_until check consume_body () (concat pre @ m @ rest)"
    by (intro read_until_step) (simp_all add: consume_body_def)
  with Cons show ?case by simp
qed

lemma collect_dep_append:
  "collect_dep fs packages sc l [] = Some (Inr ms)
     \<Longrightarrow> collect_dep fs packages sc l tar = Some (Inr (tar @ ms))"
  by (auto simp: collect_dep_def Let_def tar_add_def split: if_splits option.splits)

lemma collect_dep_split:
  "collect_dep fs packages sc l tar = Some (Inr tar')
     \<Longrightarrow> \<exists>ms. tar' = tar @ ms \<and> collect_dep fs packages sc l [] = Some (Inr ms)"
  by (auto simp: collect_dep_def Let_def tar_add_def split: if_splits option.splits)

lemma read_until_deps:
  "list_all2 (\<lambda>l ms. collect_dep fs packages sc l [] = Some (Inr ms)) deps mss
     \<Longrightarrow> list_all (\<lambda>l. complete_line l \<and> l \<noteq> e) deps \<Longrightarrow> complete_line e
     \<Longrightarrow> read_until (\<lambda>line. e = line) (collect_dep fs packages sc) tar (concat deps @ e @ rest)
           = Some (Returned, tar @ concat mss, rest)"
proof (induction deps mss arbitrary: tar rule: list_all2_induct)
  case Nil
  then show ?case by (simp add: read_until_hit)
next
  case (Cons l deps ms mss)
  have step: "collect_dep fs packages sc l tar = Some (Inr (tar @ ms))"
    using Cons.hyps(1) by (rule collect_dep_append)
  have "read_until (\<lambda>line. e = line) (collect_dep fs packages sc) tar (l @ concat deps @ e @ rest)
          = read_until (\<lambda>line. e = line) (collect_dep fs packages sc) (tar @ ms) (concat deps @ e @ rest)"
    using Cons.prems step by (intro read_until_step) auto
  also have "\<dots> = Some (Returned, (tar @ ms) @ concat mss, rest)"
    using Cons.prems by (intro Cons.IH) simp_all
  finally show ?case by simp
qed

lemma collect_block:
  assumes wf: "well_formed_trace re_match base_name pre start hdr deps"
    and out: "build_stdout mk = trace base_name pre start hdr deps rest"
    and deps: "list_all2 (\<lambda>l ms. collect_dep fs packages sc l [] = Some (Inr ms)) deps mss"
  shows "collect re_match fs mk tar base_name packages sc =
     (if build_returncode mk \<noteq> 0
      then (if clean_returncode mk \<noteq> 0
            then Some (Raised (CalledProcessError (clean_returncode mk)),
                       \<lparr>stdout = [], out_tar = tar @ concat mss,
                        calls = [[''latexmk'', ''-silent'', ''-pdf'', ''-deps'', base_name],
                                 [''latexmk'', ''-C'', base_name]]\<rparr>)
            else Some (Raised (SystemExit (build_returncode mk)),
                       \<lparr>stdout = [], out_tar = tar @ concat mss,
                        calls = [[''latexmk'', ''-silent'', ''-pdf'', ''-deps'', base_name],
                                 [''latexmk'', ''-C'', base_name]]\<rparr>))
      else if lexists fs (base_name @ ''.bbl'')
      then Some (Returned,
                 \<lparr>stdout = [],
                  out_tar = tar @ concat mss @ [Add (base_name @ ''.bbl'') (base_name @ ''.bbl'')],
                  calls = [[''latexmk'', ''-silent'', ''-pdf'', ''-deps'', base_name]]\<rparr>)
      else Some (Raised OSError,
                 \<lparr>stdout = [], out_tar = tar @ concat mss,
                  calls = [[''latexmk'', ''-silent'', ''-pdf'', ''-deps'', base_name]]\<rparr>))"
proof -
  let ?tail = "concat deps @ end_line base_name @ rest"
  have s1: "read_until (re_match (start_pat base_name)) consume_body () (build_stdout mk)
              = Some (Returned, (), hdr @ ?tail)"
    unfolding out trace_def using wf
    by (intro read_until_consume) (simp_all add: well_formed_trace_def)
  have s2: "readline (hdr @ ?tail) = (hdr, ?tail)"
    using wf by (simp add: well_formed_trace_def readline_complete)
  have s3: "strip hdr = header base_name" using wf by (simp add: well_formed_trace_def)
  have s4: "read_until (\<lambda>line. end_line base_name = line) (collect_dep fs packages sc) tar ?tail
              = Some (Returned, tar @ concat mss, rest)"
    using deps wf by (intro read_until_deps) (simp_all add: well_formed_trace_def)
  show ?thesis
    unfolding collect_def Let_def s1 by (simp add: s2 s3 s4 tar_add_def)
qed

lemma readline_fst_Nil: "fst (readline out) = [] \<longleftrightarrow> out = []"
proof (cases "dropWhile (\<lambda>x. x \<noteq> NL) out")
  case Nil
  show ?thesis unfolding readline_def Nil by simp
next
  case (Cons n r)
  then have "out \<noteq> []" by auto
  then show ?thesis unfolding readline_def Cons by simp
qed

lemma readline_Nil: "readline [] = ([], [])"
  by (simp add: readline_def)

lemma file_lines_Cons:
  "out \<noteq> [] \<Longrightarrow> file_lines out = fst (readline out) # file_lines (snd (readline out))"
  by (simp add: file_lines.simps [of out])

lemma read_until_never_returns:
  "\<forall>l\<in>set (file_lines out). \<not> check l \<Longrightarrow> read_until check body acc out \<noteq> Some (Returned, acc', rest)"
proof (induction check body acc out rule: read_until.induct)
  case (1 check body acc out)
  show ?case
  proof (cases "out = []")
    case True
    show ?thesis unfolding True
      by (simp add: read_until.simps [of check body acc "[]"] readline_Nil)
  next
    case False
    then have ne: "fst (readline out) \<noteq> []" by (simp add: readline_fst_Nil)
    have fl: "file_lines out = fst (readline out) # file_lines (snd (readline out))"
      using False by (rule file_lines_Cons)
    have nc: "\<not> check (fst (readline out))" using "1.prems" fl by simp
    have later: "\<forall>l\<in>set (file_lines (snd (readline out))). \<not> check l" using "1.prems" fl by simp
    show ?thesis
    proof (cases "body (fst (readline out)) acc")
      case None
      with ne nc show ?thesis by (simp add: read_until.simps [of check body acc out])
    next
      case (Some r)
      show ?thesis
      proof (cases r)
        case (Inl e)
        with Some ne nc show ?thesis by (simp add: read_until.simps [of check body acc out])
      next
        case (Inr a)
        have "read_until check body a (snd (readline out)) \<noteq> Some (Returned, acc', rest)"
          using "1.IH" [OF ne nc Some Inr later] .
        with Some Inr ne nc show ?thesis by (simp add: read_until.simps [of check body acc out])
      qed
    qed
  qed
qed

lemma read_until_raises_eof:
  "\<forall>l\<in>set (file_lines out). \<not> check l \<Longrightarrow> \<forall>l a. \<exists>a'. body l a = Some (Inr a')
     \<Longrightarrow> \<exists>acc'. read_until check body acc out = Some (Raised UnexpectedEOF, acc', [])"
proof (induction check body acc out rule: read_until.induct)
  case (1 check body acc out)
  show ?case
  proof (cases "out = []")
    case True
    show ?thesis unfolding True
      by (simp add: read_until.simps [of check body acc "[]"] readline_Nil)
  next
    case False
    then have ne: "fst (readline out) \<noteq> []" by (simp add: readline_fst_Nil)
    have fl: "file_lines out = fst (readline out) # file_lines (snd (readline out))"
      using False by (rule file_lines_Cons)
    have nc: "\<not> check (fst (readline out))" using "1.prems"(1) fl by simp
    have later: "\<forall>l\<in>set (file_lines (snd (readline out))). \<not> check l" using "1.prems"(1) fl by simp
    obtain a where a: "body (fst (readline out)) acc = Some (Inr a)" using "1.prems"(2) by blast
    have "\<exists>acc'. read_until check body a (snd (readline out)) = Some (Raised UnexpectedEOF, acc', [])"
      using "1.IH" [OF ne nc a refl later "1.prems"(2)] .
    with a ne nc show ?thesis by (simp add: read_until.simps [of check body acc out])
  qed
qed

lemma read_until_eof_deps:
  "list_all2 (\<lambda>l ms. collect_dep fs packages sc l [] = Some (Inr ms)) (file_lines D) mss
     \<Longrightarrow> \<forall>l\<in>set (file_lines D). l \<noteq> e
     \<Longrightarrow> read_until (\<lambda>line. e = line) (collect_dep fs packages sc) tar D
           = Some (Raised UnexpectedEOF, tar @ concat mss, [])"
proof (induction D arbitrary: tar mss rule: file_lines.induct)
  case (1 s)
  show ?case
  proof (cases "s = []")
    case True
    with "1.prems"(1) have "mss = []" by (simp add: file_lines.simps [of "[]"])
    then show ?thesis unfolding True
      by (simp add: read_until.simps [of _ _ _ "[]"] readline_Nil)
  next
    case False
    then have ne: "fst (readline s) \<noteq> []" by (simp add: readline_fst_Nil)
    have fl: "file_lines s = fst (readline s) # file_lines (snd (readline s))"
      using False by (rule file_lines_Cons)
    from "1.prems"(1) obtain ms mss' where mss: "mss = ms # mss'"
      and ms: "collect_dep fs packages sc (fst (readline s)) [] = Some (Inr ms)"
      and rest: "list_all2 (\<lambda>l ms. collect_dep fs packages sc l [] = Some (Inr ms))
                   (file_lines (snd (readline s))) mss'"
      unfolding fl by (auto simp: list_all2_Cons1)
    have nc: "e \<noteq> fst (readline s)" using "1.prems"(2) fl by auto
    have later: "\<forall>l\<in>set (file_lines (snd (readline s))). l \<noteq> e" using "1.prems"(2) fl by simp
    have step: "collect_dep fs packages sc (fst (readline s)) tar = Some (Inr (tar @ ms))"
      using ms by (rule collect_dep_append)
    have "read_until (\<lambda>line. e = line) (collect_dep fs packages sc) (tar @ ms) (snd (readline s))
            = Some (Raised UnexpectedEOF, (tar @ ms) @ concat mss', [])"
      using "1.IH" [OF False rest later] .
    then show ?thesis
      using ne nc step mss
      by (simp add: read_until.simps [of "\<lambda>line. e = line" "collect_dep fs packages sc" tar s])
  qed
qed

lemma file_lines_Nil: "file_lines [] = []"
  by (simp add: file_lines.simps [of "[]"])

lemma readline_rest_suffix: "\<exists>a. file_lines out = a @ file_lines (snd (readline out))"
proof (cases "out = []")
  case True
  then show ?thesis by (simp add: readline_Nil)
next
  case False
  then have "file_lines out = [fst (readline out)] @ file_lines (snd (readline out))"
    using file_lines_Cons [of out] by simp
  then show ?thesis ..
qed

lemma read_until_rest_suffix:
  "read_until check body acc out = Some (r, acc', rest)
     \<Longrightarrow> \<exists>a. file_lines out = a @ file_lines rest"
proof (induction check body acc out rule: read_until.induct)
  case (1 check body acc out)
  show ?case
  proof (cases "out = []")
    case True
    with "1.prems" show ?thesis
      by (simp add: read_until.simps [of check body acc "[]"] readline_Nil)
  next
    case False
    then have ne: "fst (readline out) \<noteq> []" by (simp add: readline_fst_Nil)
    have fl: "file_lines out = [fst (readline out)] @ file_lines (snd (readline out))"
      using False file_lines_Cons [of out] by simp
    show ?thesis
    proof (cases "check (fst (readline out))")
      case True
      with "1.prems" ne have "rest = snd (readline out)"
        by (simp add: read_until.simps [of check body acc out])
      with fl show ?thesis by blast
    next
      case nc: False
      show ?thesis
      proof (cases "body (fst (readline out)) acc")
        case None
        with "1.prems" ne nc show ?thesis by (simp add: read_until.simps [of check body acc out])
      next
        case (Some x)
        show ?thesis
        proof (cases x)
          case (Inl e)
          with Some "1.prems" ne nc have "rest = snd (readline out)"
            by (simp add: read_until.simps [of check body acc out])
          with fl show ?thesis by blast
        next
          case (Inr a)
          have "read_until check body a (snd (readline out)) = Some (r, acc', rest)"
            using "1.prems" Some Inr ne nc by (simp add: read_until.simps [of check body acc out])
          then obtain b where "file_lines (snd (readline out)) = b @ file_lines rest"
            using "1.IH" [OF ne nc Some Inr] by blast
          with fl have "file_lines out = ([fst (readline out)] @ b) @ file_lines rest" by simp
          then show ?thesis ..
        qed
      qed
    qed
  qed
qed

lemma read_until_rest_lines:
  "read_until check body acc out = Some (r, acc', rest)
     \<Longrightarrow> set (file_lines rest) \<subseteq> set (file_lines out)"
  using read_until_rest_suffix [of check body acc out r acc' rest] by auto

lemma readline_rest_lines: "set (file_lines (snd (readline out))) \<subseteq> set (file_lines out)"
  using readline_rest_suffix [of out] by auto

lemma read_until_members:
  "read_until check (collect_dep fs packages sc) tar out = Some (r, tar1, out2)
     \<Longrightarrow> \<exists>ls b mss. file_lines out = ls @ b
           \<and> list_all2 (\<lambda>l ms. collect_dep fs packages sc l [] = Some (Inr ms)) ls mss
           \<and> tar1 = tar @ concat mss"
proof (induction check "collect_dep fs packages sc" tar out rule: read_until.induct)
  case (1 check tar out)
  have triv: "file_lines out = [] @ file_lines out
      \<and> list_all2 (\<lambda>l ms. collect_dep fs packages sc l [] = Some (Inr ms)) [] []
      \<and> tar = tar @ concat []"
    by simp
  show ?case
  proof (cases "out = []")
    case True
    with "1.prems" have "tar1 = tar"
      by (simp add: read_until.simps [of check _ tar "[]"] readline_Nil)
    with triv show ?thesis by blast
  next
    case False
    then have ne: "fst (readline out) \<noteq> []" by (simp add: readline_fst_Nil)
    have fl: "file_lines out = fst (readline out) # file_lines (snd (readline out))"
      using False by (rule file_lines_Cons)
    show ?thesis
    proof (cases "check (fst (readline out))")
      case True
      with "1.prems" ne have "tar1 = tar"
        by (simp add: read_until.simps [of check _ tar out])
      with triv show ?thesis by blast
    next
      case nc: False
      show ?thesis
      proof (cases "collect_dep fs packages sc (fst (readline out)) tar")
        case None
        with "1.prems" ne nc show ?thesis by (simp add: read_until.simps [of check _ tar out])
      next
        case (Some x)
        show ?thesis
        proof (cases x)
          case (Inl e)
          with Some "1.prems" ne nc have "tar1 = tar"
            by (simp add: read_until.simps [of check _ tar out])
          with triv show ?thesis by blast
        next
          case (Inr tar')
          from Some Inr obtain ms where ms: "tar' = tar @ ms"
            "collect_dep fs packages sc (fst (readline out)) [] = Some (Inr ms)"
            using collect_dep_split by blast
          have "read_until check (collect_dep fs packages sc) tar' (snd (readline out))
                  = Some (r, tar1, out2)"
            using "1.prems" Some Inr ne nc by (simp add: read_until.simps [of check _ tar out])
          from "1.hyps" [OF ne nc Some Inr this] obtain ls b mss where
            a: "file_lines (snd (readline out)) = ls @ b"
            and b: "list_all2 (\<lambda>l ms. collect_dep fs packages sc l [] = Some (Inr ms)) ls mss"
            and c: "tar1 = tar' @ concat mss"
            by blast
          have "file_lines out = (fst (readline out) # ls) @ b" using fl a by simp
          moreover have "list_all2 (\<lambda>l ms. collect_dep fs packages sc l [] = Some (Inr ms))
                           (fst (readline out) # ls) (ms # mss)"
            using ms(2) b by simp
          moreover have "tar1 = tar @ concat (ms # mss)" using c ms(1) by simp
          ultimately show ?thesis by blast
        qed
      qed
    qed
  qed
qed

section \<open>The phases of a run\<close>

lemma collect_start_None:
  "read_until (re_match (start_pat base_name)) consume_body () (build_stdout mk) = None
     \<Longrightarrow> collect re_match fs mk tar base_name packages sc = None"
  by (simp add: collect_def Let_def)

lemma collect_start_Raised:
  "read_until (re_match (start_pat base_name)) consume_body () (build_stdout mk) = Some (Raised e, u, out1)
     \<Longrightarrow> collect re_match fs mk tar base_name packages sc
         = Some (Raised e,
                 \<lparr>stdout = out1, out_tar = tar,
                  calls = [[''latexmk'', ''-silent'', ''-pdf'', ''-deps'', base_name]]\<rparr>)"
  by (simp add: collect_def Let_def)

lemma collect_header_failed:
  "read_until (re_match (start_pat base_name)) consume_body () (build_stdout mk) = Some (Returned, u, out1)
     \<Longrightarrow> strip (fst (readline out1)) \<noteq> header base_name
     \<Longrightarrow> collect re_match fs mk tar base_name packages sc
         = Some (Raised AssertionError,
                 \<lparr>stdout = snd (readline out1), out_tar = tar,
                  calls = [[''latexmk'', ''-silent'', ''-pdf'', ''-deps'', base_name]]\<rparr>)"
  by (simp add: collect_def Let_def)

lemma collect_loop_None:
  "read_until (re_match (start_pat base_name)) consume_body () (build_stdout mk) = Some (Returned, u, out1)
     \<Longrightarrow> strip (fst (readline out1)) = header base_name
     \<Longrightarrow> read_until (\<lambda>line. end_line base_name = line) (collect_dep fs packages sc) tar
           (snd (readline out1)) = None
     \<Longrightarrow> collect re_match fs mk tar base_name packages sc = None"
  by (simp add: collect_def Let_def)

lemma collect_loop_Raised:
  "read_until (re_match (start_pat base_name)) consume_body () (build_stdout mk) = Some (Returned, u, out1)
     \<Longrightarrow> strip (fst (readline out1)) = header base_name
     \<Longrightarrow> read_until (\<lambda>line. end_line base_name = line) (collect_dep fs packages sc) tar
           (snd (readline out1)) = Some (Raised e, tar1, out2)
     \<Longrightarrow> collect re_match fs mk tar base_name packages sc
         = Some (Raised e,
                 \<lparr>stdout = out2, out_tar = tar1,
                  calls = [[''latexmk'', ''-silent'', ''-pdf'', ''-deps'', base_name]]\<rparr>)"
  by (simp add: collect_def Let_def)

lemma collect_loop_Returned:
  "read_until (re_match (start_pat base_name)) consume_body () (build_stdout mk) = Some (Returned, u, out1)
     \<Longrightarrow> strip (fst (readline out1)) = header base_name
     \<Longrightarrow> read_until (\<lambda>line. end_line base_name = line) (collect_dep fs packages sc) tar
           (snd (readline out1)) = Some (Returned, tar1, out2)
     \<Longrightarrow> collect re_match fs mk tar base_name packages sc =
         (if build_returncode mk \<noteq> 0
          then (if clean_returncode mk \<noteq> 0
                then Some (Raised (CalledProcessError (clean_returncode mk)),
                           \<lparr>stdout = [], out_tar = tar1,
                            calls = [[''latexmk'', ''-silent'', ''-pdf'', ''-deps'', base_name],
                                     [''latexmk'', ''-C'', base_name]]\<rparr>)
                else Some (Raised (SystemExit (build_returncode mk)),
                           \<lparr>stdout = [], out_tar = tar1,
                            calls = [[''latexmk'', ''-silent'', ''-pdf'', ''-deps'', base_name],
                                     [''latexmk'', ''-C'', base_name]]\<rparr>))
          else if lexists fs (base_name @ ''.bbl'')
          then Some (Returned,
                     \<lparr>stdout = [],
                      out_tar = tar1 @ [Add (base_name @ ''.bbl'') (base_name @ ''.bbl'')],
                      calls = [[''latexmk'', ''-silent'', ''-pdf'', ''-deps'', base_name]]\<rparr>)
          else Some (Raised OSError,
                     \<lparr>stdout = [], out_tar = tar1,
                      calls = [[''latexmk'', ''-silent'', ''-pdf'', ''-deps'', base_name]]\<rparr>))"
  by (simp add: collect_def Let_def tar_add_def)

text \<open>Every result of a run arises in one of five ways.\<close>

lemma collect_cases:
  assumes res: "collect re_match fs mk tar base_name packages sc = Some (oc, st)"
  obtains
    (start) e u out1 where
      "read_until (re_match (start_pat base_name)) consume_body () (build_stdout mk)
         = Some (Raised e, u, out1)"
      "oc = Raised e" "out_tar st = tar"
  | (header) u out1 where
      "read_until (re_match (start_pat base_name)) consume_body () (build_stdout mk)
         = Some (Returned, u, out1)"
      "strip (fst (readline out1)) \<noteq> header base_name"
      "oc = Raised AssertionError" "out_tar st = tar"
  | (loop) u out1 e tar1 out2 where
      "read_until (re_match (start_pat base_name)) consume_body () (build_stdout mk)
         = Some (Returned, u, out1)"
      "read_until (\<lambda>line. end_line base_name = line) (collect_dep fs packages sc) tar
         (snd (readline out1)) = Some (Raised e, tar1, out2)"
      "oc = Raised e" "out_tar st = tar1"
  | (failed) u out1 tar1 out2 e where
      "read_until (re_match (start_pat base_name)) consume_body () (build_stdout mk)
         = Some (Returned, u, out1)"
      "read_until (\<lambda>line. end_line base_name = line) (collect_dep fs packages sc) tar
         (snd (readline out1)) = Some (Returned, tar1, out2)"
      "build_returncode mk \<noteq> 0 \<or> \<not> lexists fs (base_name @ ''.bbl'')"
      "oc = Raised e" "out_tar st = tar1"
  | (finished) u out1 tar1 out2 where
      "read_until (re_match (start_pat base_name)) consume_body () (build_stdout mk)
         = Some (Returned, u, out1)"
      "read_until (\<lambda>line. end_line base_name = line) (collect_dep fs packages sc) tar
         (snd (readline out1)) = Some (Returned, tar1, out2)"
      "build_returncode mk = 0" "lexists fs (base_name @ ''.bbl'')"
      "oc = Returned" "out_tar st = tar1 @ [Add (base_name @ ''.bbl'') (base_name @ ''.bbl'')]"
proof (cases "read_until (re_match (start_pat base_name)) consume_body () (build_stdout mk)")
  case None
  have "collect re_match fs mk tar base_name packages sc = None"
    using None by (rule collect_start_None)
  with res show ?thesis by simp
next
  case (Some x)
  obtain r u out1 where x: "x = (r, u, out1)" by (cases x) auto
  show ?thesis
  proof (cases r)
    case (Raised e)
    have s1: "read_until (re_match (start_pat base_name)) consume_body () (build_stdout mk)
            = Some (Raised e, u, out1)"
      using Some x Raised by simp
    have "collect re_match fs mk tar base_name packages sc
         = Some (Raised e,
                 \<lparr>stdout = out1, out_tar = tar,
                  calls = [[''latexmk'', ''-silent'', ''-pdf'', ''-deps'', base_name]]\<rparr>)"
      using s1 by (rule collect_start_Raised)
    with res have "oc = Raised e" "out_tar st = tar" by auto
    with s1 show ?thesis by (rule start)
  next
    case Returned
    have s1: "read_until (re_match (start_pat base_name)) consume_body () (build_stdout mk)
            = Some (Returned, u, out1)"
      using Some x Returned by simp
    show ?thesis
    proof (cases "strip (fst (readline out1)) = header base_name")
      case False
      have "collect re_match fs mk tar base_name packages sc
         = Some (Raised AssertionError,
                 \<lparr>stdout = snd (readline out1), out_tar = tar,
                  calls = [[''latexmk'', ''-silent'', ''-pdf'', ''-deps'', base_name]]\<rparr>)"
        using s1 False by (rule collect_header_failed)
      with res have "oc = Raised AssertionError" "out_tar st = tar" by auto
      with s1 False show ?thesis by (rule header)
    next
      case hd: True
      show ?thesis
      proof (cases "read_until (\<lambda>line. end_line base_name = line) (collect_dep fs packages sc) tar
                      (snd (readline out1))")
        case None
        have "collect re_match fs mk tar base_name packages sc = None"
          using s1 hd None by (rule collect_loop_None)
        with res show ?thesis by simp
      next
        case (Some y)
        obtain r2 tar1 out2 where y: "y = (r2, tar1, out2)" by (cases y) auto
        show ?thesis
        proof (cases r2)
          case (Raised e)
          have s2: "read_until (\<lambda>line. end_line base_name = line) (collect_dep fs packages sc) tar
                  (snd (readline out1)) = Some (Raised e, tar1, out2)"
            using Some y Raised by simp
          have "collect re_match fs mk tar base_name packages sc
             = Some (Raised e,
                 \<lparr>stdout = out2, out_tar = tar1,
                  calls = [[''latexmk'', ''-silent'', ''-pdf'', ''-deps'', base_name]]\<rparr>)"
            using s1 hd s2 by (rule collect_loop_Raised)
          with res have "oc = Raised e" "out_tar st = tar1" by auto
          with s1 s2 show ?thesis by (rule loop)
        next
          case Returned
          have s2: "read_until (\<lambda>line. end_line base_name = line) (collect_dep fs packages sc) tar
                  (snd (readline out1)) = Some (Returned, tar1, out2)"
            using Some y Returned by simp
          note c = collect_loop_Returned [where re_match = re_match and base_name = base_name
              and mk = mk and fs = fs and tar = tar and packages = packages and sc = sc,
              OF s1 hd s2]
          show ?thesis
          proof (cases "build_returncode mk = 0 \<and> lexists fs (base_name @ ''.bbl'')")
            case True
            with c res have "oc = Returned"
              "out_tar st = tar1 @ [Add (base_name @ ''.bbl'') (base_name @ ''.bbl'')]"
              by auto
            with s1 s2 True show ?thesis by (intro finished) simp_all
          next
            case False
            with c res have "\<exists>e. oc = Raised e" "out_tar st = tar1"
              by (auto split: if_splits)
            then obtain e where "oc = Raised e" by blast
            with s1 s2 False \<open>out_tar st = tar1\<close> show ?thesis by (intro failed) auto
          qed
        qed
      qed
    qed
  qed
qed

lemma collect_ReturnedD:
  assumes "collect re_match fs mk tar base_name packages sc = Some (Returned, st)"
  shows "build_returncode mk = 0 \<and> lexists fs (base_name @ ''.bbl'')
         \<and> (\<exists>ms. out_tar st = ms @ [Add (base_name @ ''.bbl'') (base_name @ ''.bbl'')])"
  using assms by (cases rule: collect_cases) auto

lemma collect_no_start:
  assumes "\<forall>l\<in>set (file_lines (build_stdout mk)). \<not> re_match (start_pat base_name) l"
  shows "collect re_match fs mk tar base_name packages sc
           = Some (Raised UnexpectedEOF,
                   \<lparr>stdout = [], out_tar = tar,
                    calls = [[''latexmk'', ''-silent'', ''-pdf'', ''-deps'', base_name]]\<rparr>)"
proof -
  have "\<forall>l a. \<exists>a'. consume_body l a = Some (Inr a')" by (simp add: consume_body_def)
  with assms obtain u where
    "read_until (re_match (start_pat base_name)) consume_body () (build_stdout mk)
       = Some (Raised UnexpectedEOF, u, [])"
    using read_until_raises_eof [of "build_stdout mk" "re_match (start_pat base_name)" consume_body "()"]
    by blast
  then show ?thesis by (rule collect_start_Raised)
qed

lemma collect_no_end:
  assumes none: "\<forall>l\<in>set (file_lines (build_stdout mk)). l \<noteq> end_line base_name"
  shows "collect re_match fs mk tar base_name packages sc \<noteq> Some (Returned, st)"
proof
  assume "collect re_match fs mk tar base_name packages sc = Some (Returned, st)"
  then show False
  proof (cases rule: collect_cases)
    case (finished u out1 tar1 out2)
    have "set (file_lines (snd (readline out1))) \<subseteq> set (file_lines (build_stdout mk))"
      using read_until_rest_lines [OF finished(1)] readline_rest_lines [of out1]
      by (rule order_trans [rotated])
    with none have ne: "\<forall>l\<in>set (file_lines (snd (readline out1))). \<not> end_line base_name = l"
      by auto
    from read_until_never_returns [where check = "\<lambda>l. end_line base_name = l"
        and body = "collect_dep fs packages sc" and acc = tar and acc' = tar1 and rest = out2,
        OF ne] finished(2)
    show False by simp
  qed simp_all
qed

lemma collect_Raised_archive:
  assumes "collect re_match fs mk tar base_name packages sc = Some (Raised x, st)"
  shows "\<exists>a ls b mss. file_lines (build_stdout mk) = a @ ls @ b
           \<and> list_all2 (\<lambda>l ms. collect_dep fs packages sc l [] = Some (Inr ms)) ls mss
           \<and> out_tar st = tar @ concat mss"
proof -
  have triv: "out_tar st = tar \<Longrightarrow> ?thesis"
  proof -
    assume "out_tar st = tar"
    then have "file_lines (build_stdout mk) = file_lines (build_stdout mk) @ [] @ []
        \<and> list_all2 (\<lambda>l ms. collect_dep fs packages sc l [] = Some (Inr ms)) [] []
        \<and> out_tar st = tar @ concat []"
      by simp
    then show ?thesis by blast
  qed
  have from_loop: ?thesis
    if s1: "read_until (re_match (start_pat base_name)) consume_body () (build_stdout mk)
              = Some (Returned, u, out1)"
      and s2: "read_until (\<lambda>line. end_line base_name = line) (collect_dep fs packages sc) tar
                 (snd (readline out1)) = Some (r, tar1, out2)"
      and ar: "out_tar st = tar1"
    for u out1 r tar1 out2
  proof -
    obtain a0 where a0: "file_lines (build_stdout mk) = a0 @ file_lines out1"
      using read_until_rest_suffix [OF s1] by blast
    obtain a1 where a1: "file_lines out1 = a1 @ file_lines (snd (readline out1))"
      using readline_rest_suffix [of out1] by blast
    obtain ls b mss where m: "file_lines (snd (readline out1)) = ls @ b"
      "list_all2 (\<lambda>l ms. collect_dep fs packages sc l [] = Some (Inr ms)) ls mss"
      "tar1 = tar @ concat mss"
      using read_until_members [OF s2] by blast
    have "file_lines (build_stdout mk) = (a0 @ a1) @ ls @ b" using a0 a1 m(1) by simp
    with m(2) m(3) ar show ?thesis by blast
  qed
  from assms show ?thesis
  proof (cases rule: collect_cases)
    case (start e u out1)
    then show ?thesis using triv by simp
  next
    case (header u out1)
    then show ?thesis using triv by simp
  next
    case (loop u out1 e tar1 out2)
    from loop(1) loop(2) loop(4) show ?thesis by (rule from_loop)
  next
    case (failed u out1 tar1 out2 e)
    from failed(1) failed(2) failed(5) show ?thesis by (rule from_loop)
  next
    case (finished u out1 tar1 out2)
    then show ?thesis by simp
  qed
qed

lemma collect_eof_after_header:
  assumes wf: "well_formed_head re_match base_name pre start hdr"
    and out: "build_stdout mk = concat pre @ start @ hdr @ D"
    and deps: "list_all2 (\<lambda>l ms. collect_dep fs packages sc l [] = Some (Inr ms)) (file_lines D) mss"
    and none: "\<forall>l\<in>set (file_lines D). l \<noteq> end_line base_name"
  shows "collect re_match fs mk tar base_name packages sc
           = Some (Raised UnexpectedEOF,
                   \<lparr>stdout = [], out_tar = tar @ concat mss,
                    calls = [[''latexmk'', ''-silent'', ''-pdf'', ''-deps'', base_name]]\<rparr>)"
proof -
  have s1: "read_until (re_match (start_pat base_name)) consume_body () (build_stdout mk)
              = Some (Returned, (), hdr @ D)"
    unfolding out using wf
    by (intro read_until_consume) (simp_all add: well_formed_head_def)
  have s2: "readline (hdr @ D) = (hdr, D)"
    using wf by (simp add: well_formed_head_def readline_complete)
  have s3: "strip (fst (readline (hdr @ D))) = header base_name"
    using wf s2 by (simp add: well_formed_head_def)
  have s4: "read_until (\<lambda>line. end_line base_name = line) (collect_dep fs packages sc) tar
              (snd (readline (hdr @ D))) = Some (Raised UnexpectedEOF, tar @ concat mss, [])"
    unfolding s2 using deps none by (simp add: read_until_eof_deps)
  from s1 s3 s4 show ?thesis by (rule collect_loop_Raised)
qed

section \<open>Claims about the comment-stripping transform\<close>

text \<open>
  C1, as stated, does not hold: the transform does not remove the unescaped percent sign.
  The replacement template puts the percent sign back, so on \<^verbatim>\<open>x%y\<close> the result is
  \<^verbatim>\<open>x%\<close>, not \<^verbatim>\<open>x\<close>.
\<close>

theorem strip_comment_not_removing_percent: 
  "strip_comment ''x%y'' = ''x%'' \<and> strip_comment ''x%y'' \<noteq> ''x''"
  by (simp add: strip_comment_def)

text \<open>
  C1, amended: on a line (a text without newline, followed or not by its newline) the
  transform keeps everything up to and including the first unescaped percent sign and
  removes what follows it on that line; a percent sign directly after a backslash does
  not start a comment, and a line without an unescaped percent sign is returned as it
  is; what comes after the line's newline is transformed on its own.
\<close>

theorem strip_comment_keeps_percent:
  "NL \<notin> set body \<Longrightarrow>
     (\<forall>i. unescaped_percent body i \<and> (\<forall>j<i. \<not> unescaped_percent body j)
          \<longrightarrow> strip_comment body = take (Suc i) body
              \<and> strip_comment (body @ [NL]) = take (Suc i) body @ [NL])
   \<and> ((\<forall>i. \<not> unescaped_percent body i) \<longrightarrow> strip_comment body = body)
   \<and> strip_comment (body @ NL # rest) = strip_comment body @ NL # strip_comment rest"
proof (intro conjI allI impI)
  fix i
  assume nl: "NL \<notin> set body"
    and up: "unescaped_percent body i \<and> (\<forall>j<i. \<not> unescaped_percent body j)"
  then show cut: "strip_comment body = take (Suc i) body"
    by (simp add: strip_comment_cut)
  show "strip_comment (body @ [NL]) = take (Suc i) body @ [NL]"
    using strip_comment_append [of body "[]"] cut by (simp add: strip_comment_Nil)
next
  assume "\<forall>i. \<not> unescaped_percent body i"
  then show "strip_comment body = body" by (rule strip_comment_none)
next
  show "strip_comment (body @ NL # rest) = strip_comment body @ NL # strip_comment rest"
    by (rule strip_comment_append)
qed

text \<open>Witness for C1 on the line \<^verbatim>\<open>\\%a%b\<close>, whose first unescaped percent sign is at index 3.\<close>

theorem strip_comment_keeps_percent_witness:
  "NL \<notin> set [BACKSLASH, PERCENT, CHR ''a'', PERCENT, CHR ''b'']
   \<and> unescaped_percent [BACKSLASH, PERCENT, CHR ''a'', PERCENT, CHR ''b''] 3
   \<and> \<not> unescaped_percent [BACKSLASH, PERCENT, CHR ''a'', PERCENT, CHR ''b''] 0
   \<and> \<not> unescaped_percent [BACKSLASH, PERCENT, CHR ''a'', PERCENT, CHR ''b''] 1
   \<and> \<not> unescaped_percent [BACKSLASH, PERCENT, CHR ''a'', PERCENT, CHR ''b''] 2
   \<and> strip_comment [BACKSLASH, PERCENT, CHR ''a'', PERCENT, CHR ''b'']
       = [BACKSLASH, PERCENT, CHR ''a'', PERCENT]
   \<and> strip_comment ([BACKSLASH, PERCENT, CHR ''a'', PERCENT, CHR ''b''] @ [NL])
       = [BACKSLASH, PERCENT, CHR ''a'', PERCENT, NL]
   \<and> strip_comment ([BACKSLASH, PERCENT, CHR ''a'', PERCENT, CHR ''b''] @ NL # ''c%d'')
       = strip_comment [BACKSLASH, PERCENT, CHR ''a'', PERCENT, CHR ''b''] @ NL # strip_comment ''c%d''"
proof -
  let ?b = "[BACKSLASH, PERCENT, CHR ''a'', PERCENT, CHR ''b'']"
  have nl: "NL \<notin> set ?b" by simp
  have up: "unescaped_percent ?b 3" by (simp add: unescaped_percent_def)
  have n0: "\<not> unescaped_percent ?b 0" by (simp add: unescaped_percent_def)
  have n1: "\<not> unescaped_percent ?b 1" by (simp add: unescaped_percent_def)
  have n2: "\<not> unescaped_percent ?b 2" by (simp add: unescaped_percent_def)
  have first: "\<forall>j<3. \<not> unescaped_percent ?b j"
  proof (intro allI impI)
    fix j :: nat assume "j < 3"
    then have "j = 0 \<or> j = 1 \<or> j = 2" by arith
    with n0 n1 n2 show "\<not> unescaped_percent ?b j" by blast
  qed
  from strip_comment_keeps_percent [OF nl, of "''c%d''"] up first
  have "strip_comment ?b = take (Suc 3) ?b"
    and "strip_comment (?b @ [NL]) = take (Suc 3) ?b @ [NL]"
    and "strip_comment (?b @ NL # ''c%d'') = strip_comment ?b @ NL # strip_comment ''c%d''"
    by blast+
  then show ?thesis using nl up n0 n1 n2 by simp
qed

text \<open>C8: the transform is idempotent; stripping twice gives what stripping once gives.\<close>

theorem strip_comment_idempotent: "strip_comment (strip_comment line) = strip_comment line"
  by (simp add: strip_comment_def comment_sub_idem)

text \<open>
  C10: a line without any percent sign is returned unchanged; a line that ends in a
  newline still ends in a newline after the transform; and the text written for a
  \<^verbatim>\<open>.tex\<close> file (the transformed lines, one after the other) has as many lines as the
  text that was read.
\<close>

theorem strip_comment_identity_and_line_count:
  "(PERCENT \<notin> set line \<longrightarrow> strip_comment line = line)
   \<and> (endswith line [NL] \<longrightarrow> endswith (strip_comment line) [NL])
   \<and> length (file_lines (concat (map strip_comment (file_lines doc)))) = length (file_lines doc)"
proof (intro conjI impI)
  assume "PERCENT \<notin> set line"
  then show "strip_comment line = line" by (simp add: strip_comment_def comment_sub_no_percent)
next
  assume "endswith line [NL]"
  then obtain x where "line = x @ [NL]" by (auto simp: endswith_iff)
  then have "strip_comment line = strip_comment x @ [NL]"
    using strip_comment_append [of x "[]"] by (simp add: strip_comment_Nil)
  then show "endswith (strip_comment line) [NL]" by (auto simp: endswith_iff)
next
  show "length (file_lines (concat (map strip_comment (file_lines doc)))) = length (file_lines doc)"
    by (simp add: concat_strip_lines file_lines_strip)
qed

text \<open>Witness for C10 on the line \<^verbatim>\<open>ab\<close> with its newline.\<close>

theorem strip_comment_identity_and_line_count_witness:
  "PERCENT \<notin> set (''ab'' @ [NL]) \<and> strip_comment (''ab'' @ [NL]) = ''ab'' @ [NL]
   \<and> endswith (''ab'' @ [NL]) [NL] \<and> endswith (strip_comment (''ab'' @ [NL])) [NL]"
proof -
  have a: "PERCENT \<notin> set (''ab'' @ [NL])" by simp
  have b: "endswith (''ab'' @ [NL]) [NL]" by (simp add: endswith_def)
  from strip_comment_identity_and_line_count [of "''ab'' @ [NL]"] a b
  show ?thesis by blast
qed

section \<open>Claims about the classification of one dependency\<close>

text \<open>
  C2: with the packages \<^verbatim>\<open>biblatex\<close> and \<^verbatim>\<open>natbib\<close> configured, the existing absolute
  path \<^verbatim>\<open>/tex/biblatex-apa/apa.bbx\<close> is added to the archive under its base name although
  it contains neither \<^verbatim>\<open>/biblatex/\<close> nor \<^verbatim>\<open>/natbib/\<close>: the first branch of the filter
  pattern is \<^verbatim>\<open>/biblatex\<close> without the closing slash. With one package configured the
  filter is the test the claim describes (\<open>pkg_re_search_single\<close>).
\<close>

theorem pkg_filter_accepts_without_slashes:
  "collect_dep
     \<lparr>links = Map.empty, path_exists = (\<lambda>p. p = ''/tex/biblatex-apa/apa.bbx''),
      file_text = Map.empty\<rparr>
     [''biblatex'', ''natbib''] True (''/tex/biblatex-apa/apa.bbx'' @ [NL]) []
     = Some (Inr [Add ''/tex/biblatex-apa/apa.bbx'' ''apa.bbx''])
   \<and> \<not> contains ''/tex/biblatex-apa/apa.bbx'' ''/biblatex/''
   \<and> \<not> contains ''/tex/biblatex-apa/apa.bbx'' ''/natbib/''"
  by (simp add: collect_dep_def dep_of_line_def strip_def isspace_def endswith_def
      startswith_def pkg_re_search_def pkg_re_def target.simps basename_def tar_add_def
      lexists_def)

text \<open>
  C3, as stated, does not hold: the absolute-path rule is checked first, so an absolute
  path that ends in \<^verbatim>\<open>.bib\<close> and passes the package filter is added under its base name.
\<close>

theorem absolute_bib_is_archived:
  "endswith (dep_of_line (''/t/biblatex/r.bib'' @ [NL])) ''.bib''
   \<and> collect_dep
         \<lparr>links = Map.empty, path_exists = (\<lambda>p. p = ''/t/biblatex/r.bib''),
          file_text = Map.empty\<rparr>
         [''biblatex''] True (''/t/biblatex/r.bib'' @ [NL]) []
       = Some (Inr [Add ''/t/biblatex/r.bib'' ''r.bib''])"
  by (simp add: collect_dep_def dep_of_line_def strip_def isspace_def endswith_def
      startswith_def pkg_re_search_def pkg_re_def target.simps basename_def tar_add_def
      lexists_def)

text \<open>
  C3, amended: for every dependency line whose path ends in \<^verbatim>\<open>.bib\<close> and is not an
  absolute path that passes the package filter, the archive stays as it is and no error
  is raised.
\<close>

theorem bib_not_archived:
  "endswith (dep_of_line line) ''.bib''
   \<Longrightarrow> \<not> (startswith (dep_of_line line) [SLASH] \<and> pkg_re_search packages (dep_of_line line))
   \<Longrightarrow> collect_dep fs packages strip_comments line tar = Some (Inr tar)"
  by (auto simp: collect_dep_def Let_def dest: bib_not_tex bib_not_eps)

text \<open>Witness for C3 on the line of the relative path \<^verbatim>\<open>refs/lit.bib\<close>.\<close>

theorem bib_not_archived_witness:
  "endswith (dep_of_line (''  refs/lit.bib'' @ [BACKSLASH, NL])) ''.bib''
   \<and> \<not> startswith (dep_of_line (''  refs/lit.bib'' @ [BACKSLASH, NL])) [SLASH]
   \<and> collect_dep \<lparr>links = Map.empty, path_exists = (\<lambda>p. False), file_text = Map.empty\<rparr>
         [''biblatex''] True (''  refs/lit.bib'' @ [BACKSLASH, NL]) [Add ''a'' ''a'']
       = Some (Inr [Add ''a'' ''a''])"
proof -
  let ?l = "''  refs/lit.bib'' @ [BACKSLASH, NL]"
  have d: "dep_of_line ?l = ''refs/lit.bib''"
    by (simp add: dep_of_line_def strip_def isspace_def endswith_def)
  have a: "endswith (dep_of_line ?l) ''.bib''" unfolding d by (simp add: endswith_def)
  have b: "\<not> startswith (dep_of_line ?l) [SLASH]" unfolding d by (simp add: startswith_def)
  from b have c: "\<not> (startswith (dep_of_line ?l) [SLASH] \<and> pkg_re_search [''biblatex''] (dep_of_line ?l))"
    by simp
  from bib_not_archived [OF a c] a b show ?thesis by simp
qed

text \<open>
  C9, as stated, does not hold: an absolute path that ends in
  \<^verbatim>\<open>-eps-converted-to.pdf\<close> and passes the package filter is added under its base name.
\<close>

theorem absolute_converted_pdf_is_archived:
  "endswith (dep_of_line (''/t/biblatex/l-eps-converted-to.pdf'' @ [NL])) ''-eps-converted-to.pdf''
   \<and> collect_dep
         \<lparr>links = Map.empty, path_exists = (\<lambda>p. p = ''/t/biblatex/l-eps-converted-to.pdf''),
          file_text = Map.empty\<rparr>
         [''biblatex''] True (''/t/biblatex/l-eps-converted-to.pdf'' @ [NL]) []
       = Some (Inr [Add ''/t/biblatex/l-eps-converted-to.pdf'' ''l-eps-converted-to.pdf''])"
  by (simp add: collect_dep_def dep_of_line_def strip_def isspace_def endswith_def
      startswith_def pkg_re_search_def pkg_re_def target.simps basename_def tar_add_def
      lexists_def)

text \<open>
  C9, amended: for every dependency line whose path ends in \<^verbatim>\<open>-eps-converted-to.pdf\<close>
  and is not an absolute path that passes the package filter, the archive stays as it is
  and no error is raised.
\<close>

theorem converted_pdf_not_archived:
  "endswith (dep_of_line line) ''-eps-converted-to.pdf''
   \<Longrightarrow> \<not> (startswith (dep_of_line line) [SLASH] \<and> pkg_re_search packages (dep_of_line line))
   \<Longrightarrow> collect_dep fs packages strip_comments line tar = Some (Inr tar)"
  by (auto simp: collect_dep_def Let_def dest: converted_is_pdf pdf_not_tex pdf_not_eps)

text \<open>Witness for C9 on the line of the relative path \<^verbatim>\<open>f/p-eps-converted-to.pdf\<close>.\<close>

theorem converted_pdf_not_archived_witness:
  "endswith (dep_of_line (''  f/p-eps-converted-to.pdf'' @ [BACKSLASH, NL])) ''-eps-converted-to.pdf''
   \<and> \<not> startswith (dep_of_line (''  f/p-eps-converted-to.pdf'' @ [BACKSLASH, NL])) [SLASH]
   \<and> collect_dep \<lparr>links = Map.empty, path_exists = (\<lambda>p. True), file_text = Map.empty\<rparr>
         [''biblatex''] True (''  f/p-eps-converted-to.pdf'' @ [BACKSLASH, NL]) [Add ''a'' ''a'']
       = Some (Inr [Add ''a'' ''a''])"
proof -
  let ?l = "''  f/p-eps-converted-to.pdf'' @ [BACKSLASH, NL]"
  have d: "dep_of_line ?l = ''f/p-eps-converted-to.pdf''"
    by (simp add: dep_of_line_def strip_def isspace_def endswith_def)
  have a: "endswith (dep_of_line ?l) ''-eps-converted-to.pdf''" unfolding d by (simp add: endswith_def)
  have b: "\<not> startswith (dep_of_line ?l) [SLASH]" unfolding d by (simp add: startswith_def)
  from b have c: "\<not> (startswith (dep_of_line ?l) [SLASH] \<and> pkg_re_search [''biblatex''] (dep_of_line ?l))"
    by simp
  from converted_pdf_not_archived [OF a c] a b show ?thesis by simp
qed

text \<open>
  C4, as stated, does not hold: an absolute path that ends in \<^verbatim>\<open>.eps\<close> and passes the
  package filter is added as it is under its base name, with no look at a companion
  file, so the archive gets an \<^verbatim>\<open>.eps\<close> member.
\<close>

theorem absolute_eps_is_archived_raw:
  "endswith (dep_of_line (''/t/biblatex/logo.eps'' @ [NL])) ''.eps''
   \<and> collect_dep
         \<lparr>links = Map.empty, path_exists = (\<lambda>p. p = ''/t/biblatex/logo.eps''),
          file_text = Map.empty\<rparr>
         [''biblatex''] True (''/t/biblatex/logo.eps'' @ [NL]) []
       = Some (Inr [Add ''/t/biblatex/logo.eps'' ''logo.eps''])"
  by (simp add: collect_dep_def dep_of_line_def strip_def isspace_def endswith_def
      startswith_def pkg_re_search_def pkg_re_def target.simps basename_def tar_add_def
      lexists_def)

text \<open>
  C4, amended: for every dependency line whose path is not absolute and ends in
  \<^verbatim>\<open>.eps\<close>, with \<open>base\<close> the path without that extension: the run fails with an
  assertion error when \<open>base\<close>\<^verbatim>\<open>-eps-converted-to.pdf\<close> does not exist. When it exists
  and is no symbolic link, or leads through symbolic links with absolute texts to the
  existing file \<open>t\<close>, the archive gains exactly the member that reads \<open>t\<close> and is named
  \<open>base\<close>\<^verbatim>\<open>.pdf\<close>. Nothing is said about links whose text is a relative path.
\<close>

theorem eps_replaced_by_converted_pdf:
  "endswith (dep_of_line line) ''.eps'' \<Longrightarrow> \<not> startswith (dep_of_line line) [SLASH] \<Longrightarrow>
   dep_of_line line = take (length (dep_of_line line) - 4) (dep_of_line line) @ ''.eps''
   \<and> (\<not> path_exists fs (take (length (dep_of_line line) - 4) (dep_of_line line) @ ''-eps-converted-to.pdf'')
        \<longrightarrow> collect_dep fs packages strip_comments line tar = Some (Inl AssertionError))
   \<and> (path_exists fs (take (length (dep_of_line line) - 4) (dep_of_line line) @ ''-eps-converted-to.pdf'')
        \<and> abs_chain (links fs) n (take (length (dep_of_line line) - 4) (dep_of_line line) @ ''-eps-converted-to.pdf'') = Some t
        \<and> path_exists fs t
        \<longrightarrow> collect_dep fs packages strip_comments line tar
              = Some (Inr (tar @ [Add t (take (length (dep_of_line line) - 4) (dep_of_line line) @ ''.pdf'')])))"
proof (intro conjI impI)
  assume e: "endswith (dep_of_line line) ''.eps''"
  then show "dep_of_line line = take (length (dep_of_line line) - 4) (dep_of_line line) @ ''.eps''"
    by (auto simp: endswith_iff)
next
  assume e: "endswith (dep_of_line line) ''.eps''" and r: "\<not> startswith (dep_of_line line) [SLASH]"
    and x: "\<not> path_exists fs (take (length (dep_of_line line) - 4) (dep_of_line line) @ ''-eps-converted-to.pdf'')"
  from e have "\<not> endswith (dep_of_line line) ''.tex''" by (rule eps_not_tex)
  with e r x show "collect_dep fs packages strip_comments line tar = Some (Inl AssertionError)"
    by (simp add: collect_dep_def Let_def)
next
  assume e: "endswith (dep_of_line line) ''.eps''" and r: "\<not> startswith (dep_of_line line) [SLASH]"
    and x: "path_exists fs (take (length (dep_of_line line) - 4) (dep_of_line line) @ ''-eps-converted-to.pdf'')
        \<and> abs_chain (links fs) n (take (length (dep_of_line line) - 4) (dep_of_line line) @ ''-eps-converted-to.pdf'') = Some t
        \<and> path_exists fs t"
  from e have nt: "\<not> endswith (dep_of_line line) ''.tex''" by (rule eps_not_tex)
  from x have tg: "target (links fs) (take (length (dep_of_line line) - 4) (dep_of_line line) @ ''-eps-converted-to.pdf'') = Some t"
    by (blast intro: target_abs_chain)
  from x have "lexists fs t" by (simp add: lexists_def)
  with e r x nt tg show "collect_dep fs packages strip_comments line tar
              = Some (Inr (tar @ [Add t (take (length (dep_of_line line) - 4) (dep_of_line line) @ ''.pdf'')]))"
    by (simp add: collect_dep_def Let_def tar_add_def)
qed

text \<open>
  Witness for C4 on the line of \<^verbatim>\<open>figures/plot.eps\<close>: with the companion a link to the
  existing \<^verbatim>\<open>/build/plot.pdf\<close>, with the companion a plain file, and with the companion
  missing.
\<close>

theorem eps_replaced_by_converted_pdf_witness:
  "endswith (dep_of_line (''  figures/plot.eps'' @ [BACKSLASH, NL])) ''.eps''
   \<and> \<not> startswith (dep_of_line (''  figures/plot.eps'' @ [BACKSLASH, NL])) [SLASH]
   \<and> collect_dep
         \<lparr>links = [''figures/plot-eps-converted-to.pdf'' \<mapsto> ''/build/plot.pdf''],
          path_exists = (\<lambda>p. p \<in> set [''figures/plot-eps-converted-to.pdf'', ''/build/plot.pdf'']),
          file_text = Map.empty\<rparr>
         [''biblatex''] True (''  figures/plot.eps'' @ [BACKSLASH, NL]) []
       = Some (Inr [Add ''/build/plot.pdf'' ''figures/plot.pdf''])
   \<and> collect_dep
         \<lparr>links = Map.empty, path_exists = (\<lambda>p. p = ''figures/plot-eps-converted-to.pdf''),
          file_text = Map.empty\<rparr>
         [''biblatex''] True (''  figures/plot.eps'' @ [BACKSLASH, NL]) []
       = Some (Inr [Add ''figures/plot-eps-converted-to.pdf'' ''figures/plot.pdf''])
   \<and> collect_dep \<lparr>links = Map.empty, path_exists = (\<lambda>p. False), file_text = Map.empty\<rparr>
         [''biblatex''] True (''  figures/plot.eps'' @ [BACKSLASH, NL]) []
       = Some (Inl AssertionError)"
proof -
  let ?l = "''  figures/plot.eps'' @ [BACKSLASH, NL]"
  let ?A = "\<lparr>links = [''figures/plot-eps-converted-to.pdf'' \<mapsto> ''/build/plot.pdf''],
             path_exists = (\<lambda>p. p \<in> set [''figures/plot-eps-converted-to.pdf'', ''/build/plot.pdf'']),
             file_text = Map.empty\<rparr>"
  let ?P = "\<lparr>links = Map.empty, path_exists = (\<lambda>p. p = ''figures/plot-eps-converted-to.pdf''),
             file_text = Map.empty\<rparr>"
  let ?B = "\<lparr>links = Map.empty, path_exists = (\<lambda>p. False), file_text = Map.empty\<rparr>"
  have d: "dep_of_line ?l = ''figures/plot.eps''"
    by (simp add: dep_of_line_def strip_def isspace_def endswith_def)
  have a: "endswith (dep_of_line ?l) ''.eps''" unfolding d by (simp add: endswith_def)
  have b: "\<not> startswith (dep_of_line ?l) [SLASH]" unfolding d by (simp add: startswith_def)
  have pdf: "take (length (dep_of_line ?l) - 4) (dep_of_line ?l) @ ''-eps-converted-to.pdf''
               = ''figures/plot-eps-converted-to.pdf''"
    unfolding d by simp
  have nm: "take (length (dep_of_line ?l) - 4) (dep_of_line ?l) @ ''.pdf'' = ''figures/plot.pdf''"
    unfolding d by simp
  have exA: "path_exists ?A ''figures/plot-eps-converted-to.pdf''" by simp
  have chA: "abs_chain (links ?A) (Suc 0) ''figures/plot-eps-converted-to.pdf'' = Some ''/build/plot.pdf''"
    by (simp add: startswith_def)
  have tA: "path_exists ?A ''/build/plot.pdf''" by simp
  have exP: "path_exists ?P ''figures/plot-eps-converted-to.pdf''" by simp
  have chP: "abs_chain (links ?P) 0 ''figures/plot-eps-converted-to.pdf''
               = Some ''figures/plot-eps-converted-to.pdf''"
    by simp
  have nex: "\<not> path_exists ?B ''figures/plot-eps-converted-to.pdf''" by simp
  have "collect_dep ?A [''biblatex''] True ?l [] = Some (Inr ([] @ [Add ''/build/plot.pdf'' ''figures/plot.pdf'']))"
    using eps_replaced_by_converted_pdf [OF a b, where fs = ?A and n = "Suc 0" and t = "''/build/plot.pdf''"
          and packages = "[''biblatex'']" and strip_comments = True and tar = "[]"]
      exA chA tA unfolding pdf nm by blast
  moreover have "collect_dep ?P [''biblatex''] True ?l []
      = Some (Inr ([] @ [Add ''figures/plot-eps-converted-to.pdf'' ''figures/plot.pdf'']))"
    using eps_replaced_by_converted_pdf [OF a b, where fs = ?P and n = 0
          and t = "''figures/plot-eps-converted-to.pdf''"
          and packages = "[''biblatex'']" and strip_comments = True and tar = "[]"]
      exP chP unfolding pdf nm by blast
  moreover have "collect_dep ?B [''biblatex''] True ?l [] = Some (Inl AssertionError)"
    using eps_replaced_by_converted_pdf [OF a b, where fs = ?B and n = 0 and t = "''x''"
          and packages = "[''biblatex'']" and strip_comments = True and tar = "[]"]
      nex unfolding pdf nm by blast
  ultimately show ?thesis using a b by simp
qed

section \<open>Claims about a whole run\<close>

lemma sample_well_formed:
  "well_formed_trace sample_match ''m'' [''Latexmk: done'' @ [NL]] sample_start sample_hdr sample_deps"
  by (simp add: well_formed_trace_def complete_line_def sample_match_def sample_start_def
      sample_hdr_def sample_deps_def start_pat_def end_line_def header_def strip_def isspace_def)

lemma sample_members:
  "list_all2 (\<lambda>l ms. collect_dep sample_fs [''biblatex''] True l [] = Some (Inr ms)) sample_deps
     [[Add ''/t/biblatex/b.sty'' ''b.sty''],
      [AddFile ''m.tex'' (''a%'' @ [NL] @ ''c'')],
      [Add ''f/p-eps-converted-to.pdf'' ''f/p.pdf''],
      []]"
  by (simp add: sample_deps_def sample_fs_def collect_dep_def dep_of_line_def strip_def
      isspace_def endswith_def startswith_def pkg_re_search_def pkg_re_def target.simps
      basename_def file_lines.simps readline_def strip_comment_def tar_add_def lexists_def)

lemma sample_bbl: "lexists sample_fs (''m'' @ ''.bbl'')"
  by (simp add: lexists_def sample_fs_def)

text \<open>
  C5: a run that returns normally has added \<open>base_name\<close>\<^verbatim>\<open>.bbl\<close> as the last member. On
  a well-formed trace whose dependency lines \<open>deps\<close> are each classified without error,
  line \<open>i\<close> adding the members \<open>mss ! i\<close>, and with exit status 0 of the build, the
  archive is the one passed in, followed by the members of the dependency lines in the
  order of the lines, each line's members once; the run then adds
  \<open>base_name\<close>\<^verbatim>\<open>.bbl\<close> and returns normally, or fails in that last step when there is no
  such file. The header line that follows the start marker is checked and is not a
  dependency line.
\<close>

theorem collect_block_in_order:
  "(\<forall>st. collect re_match fs mk tar base_name packages sc = Some (Returned, st)
       \<longrightarrow> (\<exists>ms. out_tar st = ms @ [Add (base_name @ ''.bbl'') (base_name @ ''.bbl'')]))
   \<and> (well_formed_trace re_match base_name pre start hdr deps
       \<and> build_stdout mk = trace base_name pre start hdr deps rest
       \<and> list_all2 (\<lambda>l ms. collect_dep fs packages sc l [] = Some (Inr ms)) deps mss
       \<and> build_returncode mk = 0
       \<longrightarrow> collect re_match fs mk tar base_name packages sc
           = (if lexists fs (base_name @ ''.bbl'')
              then Some (Returned,
                   \<lparr>stdout = [],
                    out_tar = tar @ concat mss @ [Add (base_name @ ''.bbl'') (base_name @ ''.bbl'')],
                    calls = [[''latexmk'', ''-silent'', ''-pdf'', ''-deps'', base_name]]\<rparr>)
              else Some (Raised OSError,
                   \<lparr>stdout = [], out_tar = tar @ concat mss,
                    calls = [[''latexmk'', ''-silent'', ''-pdf'', ''-deps'', base_name]]\<rparr>)))"
proof (intro conjI allI impI)
  fix st
  assume "collect re_match fs mk tar base_name packages sc = Some (Returned, st)"
  from collect_ReturnedD [where re_match = re_match and base_name = base_name and mk = mk
      and fs = fs and tar = tar and packages = packages and sc = sc and st = st, OF this]
  show "\<exists>ms. out_tar st = ms @ [Add (base_name @ ''.bbl'') (base_name @ ''.bbl'')]" by blast
next
  assume a: "well_formed_trace re_match base_name pre start hdr deps
       \<and> build_stdout mk = trace base_name pre start hdr deps rest
       \<and> list_all2 (\<lambda>l ms. collect_dep fs packages sc l [] = Some (Inr ms)) deps mss
       \<and> build_returncode mk = 0"
  then have wf: "well_formed_trace re_match base_name pre start hdr deps"
    and out: "build_stdout mk = trace base_name pre start hdr deps rest"
    and deps: "list_all2 (\<lambda>l ms. collect_dep fs packages sc l [] = Some (Inr ms)) deps mss"
    and rc: "build_returncode mk = 0"
    by simp_all
  show "collect re_match fs mk tar base_name packages sc
           = (if lexists fs (base_name @ ''.bbl'')
              then Some (Returned,
                   \<lparr>stdout = [],
                    out_tar = tar @ concat mss @ [Add (base_name @ ''.bbl'') (base_name @ ''.bbl'')],
                    calls = [[''latexmk'', ''-silent'', ''-pdf'', ''-deps'', base_name]]\<rparr>)
              else Some (Raised OSError,
                   \<lparr>stdout = [], out_tar = tar @ concat mss,
                    calls = [[''latexmk'', ''-silent'', ''-pdf'', ''-deps'', base_name]]\<rparr>))"
    using collect_block [OF wf out deps, of tar] rc by simp
qed

text \<open>Witness for C5: the sample run with exit status 0.\<close>

theorem collect_block_in_order_witness:
  "well_formed_trace sample_match ''m'' [''Latexmk: done'' @ [NL]] sample_start sample_hdr sample_deps
   \<and> lexists sample_fs ''m.bbl''
   \<and> collect sample_match sample_fs
        \<lparr>build_stdout = sample_stdout, build_returncode = 0, clean_returncode = 0\<rparr>
        [] ''m'' [''biblatex''] True
      = Some (Returned,
              \<lparr>stdout = [],
               out_tar = [Add ''/t/biblatex/b.sty'' ''b.sty'',
                          AddFile ''m.tex'' (''a%'' @ [NL] @ ''c''),
                          Add ''f/p-eps-converted-to.pdf'' ''f/p.pdf'',
                          Add ''m.bbl'' ''m.bbl''],
               calls = [[''latexmk'', ''-silent'', ''-pdf'', ''-deps'', ''m'']]\<rparr>)"
proof -
  let ?mk = "\<lparr>build_stdout = sample_stdout, build_returncode = 0, clean_returncode = 0\<rparr>"
  let ?mss = "[[Add ''/t/biblatex/b.sty'' ''b.sty''],
               [AddFile ''m.tex'' (''a%'' @ [NL] @ ''c'')],
               [Add ''f/p-eps-converted-to.pdf'' ''f/p.pdf''],
               []]"
  have out: "build_stdout ?mk
      = trace ''m'' [''Latexmk: done'' @ [NL]] sample_start sample_hdr sample_deps ''x''"
    by (simp add: sample_stdout_def)
  have rc: "build_returncode ?mk = 0" by simp
  from collect_block_in_order [where re_match = sample_match and fs = sample_fs and mk = ?mk
      and tar = "[]" and base_name = "''m''" and packages = "[''biblatex'']" and sc = True
      and pre = "[''Latexmk: done'' @ [NL]]" and start = sample_start and hdr = sample_hdr
      and deps = sample_deps and rest = "''x''" and mss = ?mss]
    sample_well_formed out sample_members rc
  have "collect sample_match sample_fs ?mk [] ''m'' [''biblatex''] True
      = (if lexists sample_fs (''m'' @ ''.bbl'')
         then Some (Returned,
              \<lparr>stdout = [],
               out_tar = [] @ concat ?mss @ [Add (''m'' @ ''.bbl'') (''m'' @ ''.bbl'')],
               calls = [[''latexmk'', ''-silent'', ''-pdf'', ''-deps'', ''m'']]\<rparr>)
         else Some (Raised OSError,
              \<lparr>stdout = [], out_tar = [] @ concat ?mss,
               calls = [[''latexmk'', ''-silent'', ''-pdf'', ''-deps'', ''m'']]\<rparr>))"
    by blast
  then show ?thesis using sample_well_formed sample_bbl by simp
qed

text \<open>
  C6, as stated, does not hold: a build that exits with status 12 and writes nothing to
  its standard output makes the run fail with the end-of-stream error while it looks for
  the start marker; the clean command is not started and the exit status 12 is not
  passed on.
\<close>

theorem failed_build_without_trace_raises_eof:
  "collect sample_match sample_fs
     \<lparr>build_stdout = [], build_returncode = 12, clean_returncode = 0\<rparr>
     [] ''m'' [''biblatex''] True
   = Some (Raised UnexpectedEOF,
           \<lparr>stdout = [], out_tar = [],
            calls = [[''latexmk'', ''-silent'', ''-pdf'', ''-deps'', ''m'']]\<rparr>)"
  by (simp add: collect_def read_until.simps readline_def)

text \<open>
  C6, amended: with a non-zero exit status of the build every run that ends, ends in an
  exception, and its archive is the one passed in followed only by members that the
  classification of consecutive lines of the output added: the last step of a
  successful run, adding \<open>base_name\<close>\<^verbatim>\<open>.bbl\<close>, is not taken. When in addition the output
  is a well-formed trace whose dependency lines are all classified without error, the
  clean command is started after the build command, the archive holds the members of
  the dependency lines and nothing more, and the run ends with \<^verbatim>\<open>sys.exit\<close> of the
  build's exit status, provided the clean command exits with status 0 (its failure is
  raised otherwise).
\<close>

theorem failed_build_cleans_and_exits:
  "(build_returncode mk \<noteq> 0
       \<longrightarrow> (\<forall>oc st. collect re_match fs mk tar base_name packages sc = Some (oc, st)
             \<longrightarrow> (\<exists>e. oc = Raised e)
                 \<and> (\<exists>a ls b mss.
                       file_lines (build_stdout mk) = a @ ls @ b
                       \<and> list_all2 (\<lambda>l ms. collect_dep fs packages sc l [] = Some (Inr ms)) ls mss
                       \<and> out_tar st = tar @ concat mss)))
   \<and> (well_formed_trace re_match base_name pre start hdr deps
       \<and> build_stdout mk = trace base_name pre start hdr deps rest
       \<and> list_all2 (\<lambda>l ms. collect_dep fs packages sc l [] = Some (Inr ms)) deps mss
       \<and> build_returncode mk \<noteq> 0
       \<longrightarrow> collect re_match fs mk tar base_name packages sc
           = Some (Raised (if clean_returncode mk = 0 then SystemExit (build_returncode mk)
                           else CalledProcessError (clean_returncode mk)),
                   \<lparr>stdout = [],
                    out_tar = tar @ concat mss,
                    calls = [[''latexmk'', ''-silent'', ''-pdf'', ''-deps'', base_name],
                             [''latexmk'', ''-C'', base_name]]\<rparr>))"
proof (intro conjI allI impI)
  fix oc st
  assume rc: "build_returncode mk \<noteq> 0"
    and res: "collect re_match fs mk tar base_name packages sc = Some (oc, st)"
  show raised: "\<exists>e. oc = Raised e"
  proof (cases oc)
    case Returned
    from collect_ReturnedD [where re_match = re_match and base_name = base_name and mk = mk
        and fs = fs and tar = tar and packages = packages and sc = sc and st = st]
      res Returned
    have "build_returncode mk = 0" by blast
    with rc show ?thesis by simp
  next
    case (Raised e)
    then show ?thesis by simp
  qed
  then obtain e where "oc = Raised e" ..
  with res have "collect re_match fs mk tar base_name packages sc = Some (Raised e, st)" by simp
  from collect_Raised_archive [where re_match = re_match and base_name = base_name and mk = mk
      and fs = fs and tar = tar and packages = packages and sc = sc and st = st and x = e,
      OF this]
  show "\<exists>a ls b mss. file_lines (build_stdout mk) = a @ ls @ b
          \<and> list_all2 (\<lambda>l ms. collect_dep fs packages sc l [] = Some (Inr ms)) ls mss
          \<and> out_tar st = tar @ concat mss" .
next
  assume a: "well_formed_trace re_match base_name pre start hdr deps
       \<and> build_stdout mk = trace base_name pre start hdr deps rest
       \<and> list_all2 (\<lambda>l ms. collect_dep fs packages sc l [] = Some (Inr ms)) deps mss
       \<and> build_returncode mk \<noteq> 0"
  then have wf: "well_formed_trace re_match base_name pre start hdr deps"
    and out: "build_stdout mk = trace base_name pre start hdr deps rest"
    and deps: "list_all2 (\<lambda>l ms. collect_dep fs packages sc l [] = Some (Inr ms)) deps mss"
    and rc: "build_returncode mk \<noteq> 0"
    by simp_all
  show "collect re_match fs mk tar base_name packages sc
           = Some (Raised (if clean_returncode mk = 0 then SystemExit (build_returncode mk)
                           else CalledProcessError (clean_returncode mk)),
                   \<lparr>stdout = [],
                    out_tar = tar @ concat mss,
                    calls = [[''latexmk'', ''-silent'', ''-pdf'', ''-deps'', base_name],
                             [''latexmk'', ''-C'', base_name]]\<rparr>)"
    using collect_block [OF wf out deps, of tar] rc by simp
qed

text \<open>Witness for C6: the sample run with exit status 12 of the build.\<close>

theorem failed_build_cleans_and_exits_witness:
  "well_formed_trace sample_match ''m'' [''Latexmk: done'' @ [NL]] sample_start sample_hdr sample_deps
   \<and> collect sample_match sample_fs
        \<lparr>build_stdout = sample_stdout, build_returncode = 12, clean_returncode = 0\<rparr>
        [] ''m'' [''biblatex''] True
      = Some (Raised (SystemExit 12),
              \<lparr>stdout = [],
               out_tar = [Add ''/t/biblatex/b.sty'' ''b.sty'',
                          AddFile ''m.tex'' (''a%'' @ [NL] @ ''c''),
                          Add ''f/p-eps-converted-to.pdf'' ''f/p.pdf''],
               calls = [[''latexmk'', ''-silent'', ''-pdf'', ''-deps'', ''m''],
                        [''latexmk'', ''-C'', ''m'']]\<rparr>)"
proof -
  let ?mk = "\<lparr>build_stdout = sample_stdout, build_returncode = 12, clean_returncode = 0\<rparr>"
  let ?mss = "[[Add ''/t/biblatex/b.sty'' ''b.sty''],
               [AddFile ''m.tex'' (''a%'' @ [NL] @ ''c'')],
               [Add ''f/p-eps-converted-to.pdf'' ''f/p.pdf''],
               []]"
  have out: "build_stdout ?mk
      = trace ''m'' [''Latexmk: done'' @ [NL]] sample_start sample_hdr sample_deps ''x''"
    by (simp add: sample_stdout_def)
  have rc: "build_returncode ?mk \<noteq> 0" by simp
  from failed_build_cleans_and_exits [where re_match = sample_match and fs = sample_fs
      and mk = ?mk and tar = "[]" and base_name = "''m''" and packages = "[''biblatex'']"
      and sc = True and pre = "[''Latexmk: done'' @ [NL]]" and start = sample_start
      and hdr = sample_hdr and deps = sample_deps and rest = "''x''" and mss = ?mss]
    sample_well_formed out sample_members rc
  have "collect sample_match sample_fs ?mk [] ''m'' [''biblatex''] True
      = Some (Raised (if clean_returncode ?mk = 0 then SystemExit (build_returncode ?mk)
                      else CalledProcessError (clean_returncode ?mk)),
              \<lparr>stdout = [],
               out_tar = [] @ concat ?mss,
               calls = [[''latexmk'', ''-silent'', ''-pdf'', ''-deps'', ''m''],
                        [''latexmk'', ''-C'', ''m'']]\<rparr>)"
    by blast
  then show ?thesis using sample_well_formed by simp
qed

text \<open>
  C7, as stated, does not hold: when the output ends right after the start marker, the
  end marker has not been seen, and the run fails with the assertion on the header line,
  not with the end-of-stream error.
\<close>

theorem eof_after_start_marker_fails_assertion:
  "file_lines sample_start = [sample_start]
   \<and> sample_start \<noteq> end_line ''m''
   \<and> collect sample_match sample_fs
        \<lparr>build_stdout = sample_start, build_returncode = 0, clean_returncode = 0\<rparr>
        [] ''m'' [''biblatex''] True
      = Some (Raised AssertionError,
              \<lparr>stdout = [], out_tar = [],
               calls = [[''latexmk'', ''-silent'', ''-pdf'', ''-deps'', ''m'']]\<rparr>)"
  by (simp add: collect_def sample_start_def sample_match_def read_until.simps readline_def
      file_lines.simps consume_body_def start_pat_def end_line_def header_def strip_def)

text \<open>
  C7, amended: \<^verbatim>\<open>read_until\<close> never returns normally when no line of the output
  satisfies its check. A run on an output without a line that the start pattern matches
  ends with the end-of-stream error. A run on an output that ends after the header line
  and before an end marker ends with the end-of-stream error as well, once every
  dependency line up to the end of the output has been classified without error; the
  members of those lines have been added by then. Without a line equal to the end
  marker no run returns normally.
\<close>

theorem read_until_unexpected_eof:
  "((\<forall>l\<in>set (file_lines out). \<not> check l)
       \<longrightarrow> (\<forall>acc' rest. read_until check body acc out \<noteq> Some (Returned, acc', rest)))
   \<and> ((\<forall>l\<in>set (file_lines (build_stdout mk)). \<not> re_match (start_pat base_name) l)
       \<longrightarrow> collect re_match fs mk tar base_name packages sc
           = Some (Raised UnexpectedEOF,
                   \<lparr>stdout = [], out_tar = tar,
                    calls = [[''latexmk'', ''-silent'', ''-pdf'', ''-deps'', base_name]]\<rparr>))
   \<and> (well_formed_head re_match base_name pre start hdr
       \<and> build_stdout mk = concat pre @ start @ hdr @ D
       \<and> (\<forall>l\<in>set (file_lines D). l \<noteq> end_line base_name)
       \<and> list_all2 (\<lambda>l ms. collect_dep fs packages sc l [] = Some (Inr ms)) (file_lines D) mss
       \<longrightarrow> collect re_match fs mk tar base_name packages sc
           = Some (Raised UnexpectedEOF,
                   \<lparr>stdout = [], out_tar = tar @ concat mss,
                    calls = [[''latexmk'', ''-silent'', ''-pdf'', ''-deps'', base_name]]\<rparr>))
   \<and> ((\<forall>l\<in>set (file_lines (build_stdout mk)). l \<noteq> end_line base_name)
       \<longrightarrow> (\<forall>st. collect re_match fs mk tar base_name packages sc \<noteq> Some (Returned, st)))"
proof (intro conjI allI impI)
  fix acc' rest
  assume "\<forall>l\<in>set (file_lines out). \<not> check l"
  then show "read_until check body acc out \<noteq> Some (Returned, acc', rest)"
    by (rule read_until_never_returns)
next
  assume "\<forall>l\<in>set (file_lines (build_stdout mk)). \<not> re_match (start_pat base_name) l"
  then show "collect re_match fs mk tar base_name packages sc
           = Some (Raised UnexpectedEOF,
                   \<lparr>stdout = [], out_tar = tar,
                    calls = [[''latexmk'', ''-silent'', ''-pdf'', ''-deps'', base_name]]\<rparr>)"
    by (rule collect_no_start)
next
  assume a: "well_formed_head re_match base_name pre start hdr
       \<and> build_stdout mk = concat pre @ start @ hdr @ D
       \<and> (\<forall>l\<in>set (file_lines D). l \<noteq> end_line base_name)
       \<and> list_all2 (\<lambda>l ms. collect_dep fs packages sc l [] = Some (Inr ms)) (file_lines D) mss"
  then have wf: "well_formed_head re_match base_name pre start hdr"
    and out: "build_stdout mk = concat pre @ start @ hdr @ D"
    and none: "\<forall>l\<in>set (file_lines D). l \<noteq> end_line base_name"
    and deps: "list_all2 (\<lambda>l ms. collect_dep fs packages sc l [] = Some (Inr ms)) (file_lines D) mss"
    by simp_all
  show "collect re_match fs mk tar base_name packages sc
           = Some (Raised UnexpectedEOF,
                   \<lparr>stdout = [], out_tar = tar @ concat mss,
                    calls = [[''latexmk'', ''-silent'', ''-pdf'', ''-deps'', base_name]]\<rparr>)"
    using wf out deps none by (rule collect_eof_after_header)
next
  fix st
  assume "\<forall>l\<in>set (file_lines (build_stdout mk)). l \<noteq> end_line base_name"
  then show "collect re_match fs mk tar base_name packages sc \<noteq> Some (Returned, st)"
    by (rule collect_no_end)
qed

text \<open>
  Witness for C7: an output of two lines without a start marker, and an output that ends
  after two dependency lines, the second one without a newline.
\<close>

theorem read_until_unexpected_eof_witness:
  "file_lines (''Latexmk: failed'' @ [NL] @ ''m.pdf'') = [''Latexmk: failed'' @ [NL], ''m.pdf'']
   \<and> \<not> sample_match (start_pat ''m'') (''Latexmk: failed'' @ [NL])
   \<and> \<not> sample_match (start_pat ''m'') ''m.pdf''
   \<and> collect sample_match sample_fs
        \<lparr>build_stdout = ''Latexmk: failed'' @ [NL] @ ''m.pdf'', build_returncode = 0,
         clean_returncode = 0\<rparr> [Add ''a'' ''a''] ''m'' [''biblatex''] True
       = Some (Raised UnexpectedEOF,
               \<lparr>stdout = [], out_tar = [Add ''a'' ''a''],
                calls = [[''latexmk'', ''-silent'', ''-pdf'', ''-deps'', ''m'']]\<rparr>)
   \<and> well_formed_head sample_match ''m'' [''Latexmk: done'' @ [NL]] sample_start sample_hdr
   \<and> file_lines (''    r.bib'' @ [BACKSLASH, NL] @ ''    /t/biblatex/b.sty'')
       = [''    r.bib'' @ [BACKSLASH, NL], ''    /t/biblatex/b.sty'']
   \<and> ''    r.bib'' @ [BACKSLASH, NL] \<noteq> end_line ''m''
   \<and> ''    /t/biblatex/b.sty'' \<noteq> end_line ''m''
   \<and> collect sample_match sample_fs
        \<lparr>build_stdout = concat [''Latexmk: done'' @ [NL]] @ sample_start @ sample_hdr
                          @ (''    r.bib'' @ [BACKSLASH, NL] @ ''    /t/biblatex/b.sty''),
         build_returncode = 0, clean_returncode = 0\<rparr> [Add ''a'' ''a''] ''m'' [''biblatex''] True
       = Some (Raised UnexpectedEOF,
               \<lparr>stdout = [], out_tar = [Add ''a'' ''a'', Add ''/t/biblatex/b.sty'' ''b.sty''],
                calls = [[''latexmk'', ''-silent'', ''-pdf'', ''-deps'', ''m'']]\<rparr>)"
proof -
  let ?out = "''Latexmk: failed'' @ [NL] @ ''m.pdf''"
  let ?mk = "\<lparr>build_stdout = ?out, build_returncode = 0, clean_returncode = 0\<rparr>"
  let ?D = "''    r.bib'' @ [BACKSLASH, NL] @ ''    /t/biblatex/b.sty''"
  let ?mk2 = "\<lparr>build_stdout = concat [''Latexmk: done'' @ [NL]] @ sample_start @ sample_hdr @ ?D,
               build_returncode = 0, clean_returncode = 0\<rparr>"
  let ?mss = "[[], [Add ''/t/biblatex/b.sty'' ''b.sty'']]"
  have fl: "file_lines ?out = [''Latexmk: failed'' @ [NL], ''m.pdf'']"
    by (simp add: file_lines.simps readline_def)
  have n1: "\<not> sample_match (start_pat ''m'') (''Latexmk: failed'' @ [NL])"
    by (simp add: sample_match_def)
  have n2: "\<not> sample_match (start_pat ''m'') ''m.pdf''"
    by (simp add: sample_match_def)
  have none: "\<forall>l\<in>set (file_lines (build_stdout ?mk)). \<not> sample_match (start_pat ''m'') l"
    using fl n1 n2 by simp
  have wf: "well_formed_head sample_match ''m'' [''Latexmk: done'' @ [NL]] sample_start sample_hdr"
    by (simp add: well_formed_head_def complete_line_def sample_match_def sample_start_def
        sample_hdr_def start_pat_def header_def strip_def isspace_def)
  have fd: "file_lines ?D = [''    r.bib'' @ [BACKSLASH, NL], ''    /t/biblatex/b.sty'']"
    by (simp add: file_lines.simps readline_def)
  have e1: "''    r.bib'' @ [BACKSLASH, NL] \<noteq> end_line ''m''" by (simp add: end_line_def)
  have e2: "''    /t/biblatex/b.sty'' \<noteq> end_line ''m''" by (simp add: end_line_def)
  have noend: "\<forall>l\<in>set (file_lines ?D). l \<noteq> end_line ''m''"
    unfolding fd using e1 e2 by simp
  have ms: "list_all2 (\<lambda>l ms. collect_dep sample_fs [''biblatex''] True l [] = Some (Inr ms))
              (file_lines ?D) ?mss"
    unfolding fd
    by (simp add: sample_fs_def collect_dep_def dep_of_line_def strip_def isspace_def
        endswith_def startswith_def pkg_re_search_def pkg_re_def target.simps basename_def
        tar_add_def lexists_def)
  have out2: "build_stdout ?mk2 = concat [''Latexmk: done'' @ [NL]] @ sample_start @ sample_hdr @ ?D"
    by simp
  note t1 = read_until_unexpected_eof [where mk = ?mk and re_match = sample_match
      and base_name = "''m''" and fs = sample_fs and tar = "[Add ''a'' ''a'']"
      and packages = "[''biblatex'']" and sc = True]
  note t2 = read_until_unexpected_eof [where mk = ?mk2 and re_match = sample_match
      and base_name = "''m''" and fs = sample_fs and tar = "[Add ''a'' ''a'']"
      and packages = "[''biblatex'']" and sc = True and pre = "[''Latexmk: done'' @ [NL]]"
      and start = sample_start and hdr = sample_hdr and D = ?D and mss = ?mss]
  from t1 have i1: "(\<forall>l\<in>set (file_lines (build_stdout ?mk)). \<not> sample_match (start_pat ''m'') l)
       \<longrightarrow> collect sample_match sample_fs ?mk [Add ''a'' ''a''] ''m'' [''biblatex''] True
           = Some (Raised UnexpectedEOF,
                   \<lparr>stdout = [], out_tar = [Add ''a'' ''a''],
                    calls = [[''latexmk'', ''-silent'', ''-pdf'', ''-deps'', ''m'']]\<rparr>)"
    by (rule conjunct1 [OF conjunct2])
  from i1 none have a: "collect sample_match sample_fs ?mk [Add ''a'' ''a''] ''m'' [''biblatex''] True
       = Some (Raised UnexpectedEOF,
               \<lparr>stdout = [], out_tar = [Add ''a'' ''a''],
                calls = [[''latexmk'', ''-silent'', ''-pdf'', ''-deps'', ''m'']]\<rparr>)"
    by (rule mp)
  have hyp: "well_formed_head sample_match ''m'' [''Latexmk: done'' @ [NL]] sample_start sample_hdr
       \<and> build_stdout ?mk2 = concat [''Latexmk: done'' @ [NL]] @ sample_start @ sample_hdr @ ?D
       \<and> (\<forall>l\<in>set (file_lines ?D). l \<noteq> end_line ''m'')
       \<and> list_all2 (\<lambda>l ms. collect_dep sample_fs [''biblatex''] True l [] = Some (Inr ms))
             (file_lines ?D) ?mss"
    using wf out2 noend ms by (intro conjI)
  from t2 have i2: "well_formed_head sample_match ''m'' [''Latexmk: done'' @ [NL]] sample_start sample_hdr
       \<and> build_stdout ?mk2 = concat [''Latexmk: done'' @ [NL]] @ sample_start @ sample_hdr @ ?D
       \<and> (\<forall>l\<in>set (file_lines ?D). l \<noteq> end_line ''m'')
       \<and> list_all2 (\<lambda>l ms. collect_dep sample_fs [''biblatex''] True l [] = Some (Inr ms))
             (file_lines ?D) ?mss
       \<longrightarrow> collect sample_match sample_fs ?mk2 [Add ''a'' ''a''] ''m'' [''biblatex''] True
           = Some (Raised UnexpectedEOF,
                   \<lparr>stdout = [], out_tar = [Add ''a'' ''a''] @ concat ?mss,
                    calls = [[''latexmk'', ''-silent'', ''-pdf'', ''-deps'', ''m'']]\<rparr>)"
    by (rule conjunct1 [OF conjunct2 [OF conjunct2]])
  from i2 hyp
  have "collect sample_match sample_fs ?mk2 [Add ''a'' ''a''] ''m'' [''biblatex''] True
       = Some (Raised UnexpectedEOF,
               \<lparr>stdout = [], out_tar = [Add ''a'' ''a''] @ concat ?mss,
                calls = [[''latexmk'', ''-silent'', ''-pdf'', ''-deps'', ''m'']]\<rparr>)"
    by (rule mp)
  then have b: "collect sample_match sample_fs ?mk2 [Add ''a'' ''a''] ''m'' [''biblatex''] True
       = Some (Raised UnexpectedEOF,
               \<lparr>stdout = [], out_tar = [Add ''a'' ''a'', Add ''/t/biblatex/b.sty'' ''b.sty''],
                calls = [[''latexmk'', ''-silent'', ''-pdf'', ''-deps'', ''m'']]\<rparr>)"
    by simp
  show ?thesis
    by (intro conjI) (rule fl, rule n1, rule n2, rule a, rule wf, rule fd, rule e1, rule e2, rule b)
qed

end
